theory Spec2Isabelle
  imports Main "HOL-Library.Sublist"
begin

section \<open>Byte strings and the Go library functions the program calls\<close>

text \<open>
  A Go string is a sequence of bytes; it is modelled as \<open>string\<close> (a list of 8-bit
  characters). The library functions used by \<^verbatim>\<open>main.go\<close> are modelled on bytes, with
  the behaviour of the Go standard library.
\<close>

abbreviation NL :: char where "NL \<equiv> CHR 0x0A"
abbreviation CR :: char where "CR \<equiv> CHR 0x0D"
abbreviation DQ :: char where "DQ \<equiv> CHR 0x22"

text \<open>\<^verbatim>\<open>strings.Split(s, "\n")\<close>: never empty, \<^verbatim>\<open>Split("", "\n") = [""]\<close>.\<close>

fun Split :: "string \<Rightarrow> string list" where
  "Split [] = [[]]"
| "Split (c # cs) =
     (if c = NL then [] # Split cs
      else (case Split cs of [] \<Rightarrow> [[c]] | l # ls \<Rightarrow> (c # l) # ls))"

text \<open>\<^verbatim>\<open>strings.Join(lines, "\n")\<close>.\<close>

fun Join :: "string list \<Rightarrow> string" where
  "Join [] = []"
| "Join [l] = l"
| "Join (l # ls) = l @ NL # Join ls"

text \<open>\<^verbatim>\<open>strings.Contains(s, sub)\<close>; \<^verbatim>\<open>strings.HasPrefix\<close> and \<^verbatim>\<open>strings.HasSuffix\<close>
  are \<^const>\<open>prefix\<close> and \<^const>\<open>suffix\<close>.\<close>

fun Contains :: "string \<Rightarrow> string \<Rightarrow> bool" where
  "Contains [] sub = (sub = [])"
| "Contains (c # cs) sub = (prefix sub (c # cs) \<or> Contains cs sub)"

text \<open>
  \<^verbatim>\<open>unicode.IsSpace\<close>: the UTF-8 encodings of the code points U+0009 to U+000D, U+0020,
  U+0085, U+00A0, U+1680, U+2000 to U+200A, U+2028, U+2029, U+202F, U+205F and U+3000.
\<close>

definition unicodeSpaces :: "string list" where
  "unicodeSpaces =
    [[CHR 0x09], [CHR 0x0A], [CHR 0x0B], [CHR 0x0C], [CHR 0x0D], [CHR 0x20],
     [CHR 0xC2, CHR 0x85], [CHR 0xC2, CHR 0xA0],
     [CHR 0xE1, CHR 0x9A, CHR 0x80],
     [CHR 0xE2, CHR 0x80, CHR 0x80], [CHR 0xE2, CHR 0x80, CHR 0x81],
     [CHR 0xE2, CHR 0x80, CHR 0x82], [CHR 0xE2, CHR 0x80, CHR 0x83],
     [CHR 0xE2, CHR 0x80, CHR 0x84], [CHR 0xE2, CHR 0x80, CHR 0x85],
     [CHR 0xE2, CHR 0x80, CHR 0x86], [CHR 0xE2, CHR 0x80, CHR 0x87],
     [CHR 0xE2, CHR 0x80, CHR 0x88], [CHR 0xE2, CHR 0x80, CHR 0x89],
     [CHR 0xE2, CHR 0x80, CHR 0x8A],
     [CHR 0xE2, CHR 0x80, CHR 0xA8], [CHR 0xE2, CHR 0x80, CHR 0xA9],
     [CHR 0xE2, CHR 0x80, CHR 0xAF],
     [CHR 0xE2, CHR 0x81, CHR 0x9F],
     [CHR 0xE3, CHR 0x80, CHR 0x80]]"

text \<open>Removing, from the front, every leading occurrence of one of the given byte
  sequences.\<close>

function stripLeading :: "string list \<Rightarrow> string \<Rightarrow> string" where
  "stripLeading sps s =
     (case find (\<lambda>sp. sp \<noteq> [] \<and> prefix sp s) sps of
        None \<Rightarrow> s
      | Some sp \<Rightarrow> stripLeading sps (drop (length sp) s))"
  by pat_completeness auto
termination
proof (relation "measure (\<lambda>(sps, s). length s)")
  show "wf (measure (\<lambda>(sps, s). length s))" by simp
next
  fix sps :: "string list" and s sp :: string
  assume "find (\<lambda>sp. sp \<noteq> [] \<and> prefix sp s) sps = Some sp"
  then have "sp \<noteq> []" and "prefix sp s"
    by (auto simp: find_Some_iff)
  then have "s \<noteq> []" by auto
  with \<open>sp \<noteq> []\<close> show "((sps, drop (length sp) s), (sps, s)) \<in> measure (\<lambda>(sps, s). length s)"
    by simp
qed

declare stripLeading.simps [simp del]

text \<open>\<^verbatim>\<open>strings.TrimSpace\<close>: leading white space is removed, then trailing white space.\<close>

definition TrimSpace :: "string \<Rightarrow> string" where
  "TrimSpace s = rev (stripLeading (map rev unicodeSpaces) (rev (stripLeading unicodeSpaces s)))"

subsection \<open>The regular expressions\<close>

text \<open>The class \<^verbatim>\<open>\s\<close> of Go's \<^verbatim>\<open>regexp\<close> is \<^verbatim>\<open>[\t\n\f\r ]\<close>; \<^verbatim>\<open>\d\<close> is \<^verbatim>\<open>[0-9]\<close>.\<close>

definition reSpace :: "char \<Rightarrow> bool" where
  "reSpace c = (c = CHR 0x09 \<or> c = CHR 0x0A \<or> c = CHR 0x0C \<or> c = CHR 0x0D \<or> c = CHR 0x20)"

definition reDigit :: "char \<Rightarrow> bool" where
  "reDigit c = (c \<in> set ''0123456789'')"

text \<open>The text after \<^verbatim>\<open>^\s*key\s*=\s*\<close>, when the string starts that way.\<close>

definition afterKey :: "string \<Rightarrow> string \<Rightarrow> string option" where
  "afterKey key s =
     (let s1 = dropWhile reSpace s in
      if \<not> prefix key s1 then None
      else (case dropWhile reSpace (drop (length key) s1) of
              [] \<Rightarrow> None
            | c # s2 \<Rightarrow> if c = CHR ''='' then Some (dropWhile reSpace s2) else None))"

text \<open>
  \<^verbatim>\<open>regexp.MustCompile(`^\s*key\s*=\s*"(.*)"`).FindStringSubmatch(s)\<close>: \<open>Some\<close> of the
  submatch when there is a match (then \<^verbatim>\<open>len(matches) > 1\<close>), \<open>None\<close> otherwise. The
  dot matches every byte but the newline and the star is greedy, so the submatch ends
  before the last double quote of the line.
\<close>

definition matchQuoted :: "string \<Rightarrow> string \<Rightarrow> string option" where
  "matchQuoted key s =
     (case afterKey key s of
        None \<Rightarrow> None
      | Some [] \<Rightarrow> None
      | Some (c # s1) \<Rightarrow>
          if c \<noteq> DQ then None
          else (let body = takeWhile (\<lambda>x. x \<noteq> NL) s1 in
                if DQ \<in> set body then Some (rev (tl (dropWhile (\<lambda>x. x \<noteq> DQ) (rev body))))
                else None))"

text \<open>\<^verbatim>\<open>regexp.MustCompile(`^\s*key\s*=\s*(\d+)`).FindStringSubmatch(s)\<close>.\<close>

definition matchNumber :: "string \<Rightarrow> string \<Rightarrow> string option" where
  "matchNumber key s =
     (case afterKey key s of
        None \<Rightarrow> None
      | Some s1 \<Rightarrow> (let ds = takeWhile reDigit s1 in if ds = [] then None else Some ds))"

definition reName :: "string \<Rightarrow> string option" where
  "reName = matchQuoted ''name''"

definition reType :: "string \<Rightarrow> string option" where
  "reType = matchQuoted ''type''"

definition reLocalIP :: "string \<Rightarrow> string option" where
  "reLocalIP = matchQuoted ''localIP''"

definition reLocalPort :: "string \<Rightarrow> string option" where
  "reLocalPort = matchNumber ''localPort''"

definition reRemotePort :: "string \<Rightarrow> string option" where
  "reRemotePort = matchNumber ''remotePort''"

subsection \<open>The line scanner\<close>

text \<open>
  \<^verbatim>\<open>bufio.NewScanner(file)\<close> with the default split function \<^verbatim>\<open>ScanLines\<close> and the
  default buffer: a token is a line without its newline and without one trailing carriage
  return; an empty last line is no token; and a line of \<^verbatim>\<open>bufio.MaxScanTokenSize\<close>
  (64 * 1024) bytes or more does not fit the buffer, so that \<^verbatim>\<open>Scan\<close> returns false there
  (with \<^verbatim>\<open>ErrTooLong\<close> as \<^verbatim>\<open>scanner.Err()\<close>, which the program never reads).
\<close>

definition MaxScanTokenSize :: nat where
  "MaxScanTokenSize = 65536"

definition dropCR :: "string \<Rightarrow> string" where
  "dropCR l = (if l \<noteq> [] \<and> last l = CR then butlast l else l)"

fun scanTokens :: "string list \<Rightarrow> string list" where
  "scanTokens [] = []"
| "scanTokens (l # ls) =
     (if MaxScanTokenSize \<le> length l then [] else dropCR l # scanTokens ls)"

definition scanLines :: "string \<Rightarrow> string list" where
  "scanLines content =
     scanTokens (let ls = Split content in if last ls = [] then butlast ls else ls)"

text \<open>\<^verbatim>\<open>fmt.Sprintf("%d", i)\<close>.\<close>

function natDigits :: "nat \<Rightarrow> string" where
  "natDigits n =
     (if n < 10 then [''0123456789'' ! n]
      else natDigits (n div 10) @ [''0123456789'' ! (n mod 10)])"
  by pat_completeness auto
termination
  by (relation "measure id") auto

declare natDigits.simps [simp del]

definition Sprintf_d :: "int \<Rightarrow> string" where
  "Sprintf_d i = (if i < 0 then CHR ''-'' # natDigits (nat (- i)) else natDigits (nat i))"

text \<open>
  \<^verbatim>\<open>var pid int; fmt.Sscanf(s, "%d", &pid)\<close> with the error ignored: the value left in
  \<^verbatim>\<open>pid\<close>. The scan skips the leading white space other than a newline, takes an optional
  sign and then the decimal digits that follow, and stops at the first byte that is no
  digit. When there is no digit, or when the number does not fit 64 bits, the scan fails
  and \<^verbatim>\<open>pid\<close> keeps its zero value.
\<close>

definition digitVal :: "char \<Rightarrow> int" where
  "digitVal c = int (length (takeWhile (\<lambda>d. d \<noteq> c) ''0123456789''))"

definition Sscanf_d :: "string \<Rightarrow> int" where
  "Sscanf_d s =
     (let s0 = stripLeading (filter (\<lambda>sp. sp \<noteq> [NL]) unicodeSpaces) s;
          neg = (s0 \<noteq> [] \<and> hd s0 = CHR ''-'');
          s1 = (if s0 \<noteq> [] \<and> (hd s0 = CHR ''-'' \<or> hd s0 = CHR ''+'') then tl s0 else s0);
          tok = takeWhile reDigit s1;
          v = foldl (\<lambda>a c. 10 * a + digitVal c) 0 tok;
          i = (if neg then - v else v)
      in if tok = [] \<or> i < - (2 ^ 63) \<or> 2 ^ 63 \<le> i then 0 else i)"

section \<open>The data of the program\<close>

record Config =
  Port :: int
  FrpcTomlPath :: string
  FrpcExePath :: string
  AutoRegisterToFrp :: bool
  WebUIProxyName :: string
  WebUIRemotePort :: int
  Name :: string

record FrpProxy =
  Name :: string
  Type :: string
  LocalIP :: string
  LocalPort :: string
  RemotePort :: string

record AddRuleRequest =
  ListenPort :: string
  ConnectAddr :: string
  ConnectPort :: string
  RemotePort :: string
  Type :: string
  Name :: string

text \<open>The errors of the program: those of the operating system, and the ones
  \<^verbatim>\<open>fmt.Errorf\<close> wraps around them.\<close>

datatype error =
    FileError
  | ShortWrite
  | CmdError
  | FindProcessError
  | LookupFailed error
  | StopFailed error
  | CheckStatusFailed error
  | AlreadyRunning
  | CreateLogFailed
  | StartFailed

text \<open>
  What the program does to the operating system, in order: the commands it runs to
  completion (\<^verbatim>\<open>cmd.Output()\<close>, \<^verbatim>\<open>cmd.Run()\<close>), \<^verbatim>\<open>os.FindProcess\<close>, the opening of
  \<^verbatim>\<open>frpc.log\<close>, the launch of the tunnel client (\<^verbatim>\<open>cmd.Start()\<close>), the writes to the
  registry file, and the warning \<^verbatim>\<open>restartFrpc\<close> logs when the stop fails. The other
  log messages have no part in the control flow and are left out.
\<close>

datatype event =
    Exec "string list"
  | FindProcess int
  | OpenLog
  | Start "string list"
  | FileWrite string
  | LogStopWarning error

text \<open>
  The world: the registry file at \<^verbatim>\<open>config.FrpcTomlPath\<close> (\<open>None\<close> when it cannot be
  opened), whether it can be opened for writing, and the events so far.
\<close>

record world =
  frpcToml :: "string option"
  writable :: bool
  events :: "event list"

text \<open>
  The operating system answers each call; the answer may depend on everything that
  happened before. \<open>cmdOutput\<close> is \<open>None\<close> when the command fails and its standard output
  otherwise; \<open>written\<close> is the number of bytes of a write that reach the file (fewer than
  asked is a failed write).
\<close>

record env =
  windows :: bool
  cmdOutput :: "event list \<Rightarrow> string list \<Rightarrow> string option"
  findProc :: "event list \<Rightarrow> int \<Rightarrow> bool"
  openLog :: "event list \<Rightarrow> bool"
  startCmd :: "event list \<Rightarrow> string list \<Rightarrow> bool"
  written :: "event list \<Rightarrow> string \<Rightarrow> nat"

definition exec :: "env \<Rightarrow> string list \<Rightarrow> world \<Rightarrow> string option \<times> world" where
  "exec e args w = (cmdOutput e (events w) args, w\<lparr>events := events w @ [Exec args]\<rparr>)"

section \<open>The registry: parsing\<close>

definition marker :: string where
  "marker = ''[[proxies]]''"

definition emptyProxy :: FrpProxy where
  "emptyProxy = \<lparr>FrpProxy.Name = [], Type = [], LocalIP = [], LocalPort = [], RemotePort = []\<rparr>"

text \<open>The chain of \<^verbatim>\<open>if ... else if\<close> of \<^verbatim>\<open>getFrpProxies\<close> on one line of an open block.\<close>

definition setField :: "FrpProxy \<Rightarrow> string \<Rightarrow> FrpProxy" where
  "setField current line =
     (case reName line of Some v \<Rightarrow> current\<lparr>FrpProxy.Name := v\<rparr>
      | None \<Rightarrow>
     (case reType line of Some v \<Rightarrow> current\<lparr>FrpProxy.Type := v\<rparr>
      | None \<Rightarrow>
     (case reLocalIP line of Some v \<Rightarrow> current\<lparr>LocalIP := v\<rparr>
      | None \<Rightarrow>
     (case reLocalPort line of Some v \<Rightarrow> current\<lparr>LocalPort := v\<rparr>
      | None \<Rightarrow>
     (case reRemotePort line of Some v \<Rightarrow> current\<lparr>FrpProxy.RemotePort := v\<rparr>
      | None \<Rightarrow> current)))))"

definition flush :: "FrpProxy list \<Rightarrow> FrpProxy option \<Rightarrow> FrpProxy list" where
  "flush proxies current = (case current of None \<Rightarrow> proxies | Some c \<Rightarrow> proxies @ [c])"

text \<open>The loop \<^verbatim>\<open>for scanner.Scan()\<close> of \<^verbatim>\<open>getFrpProxies\<close> and the statement after it.\<close>

fun parseLoop :: "FrpProxy list \<Rightarrow> FrpProxy option \<Rightarrow> string list \<Rightarrow> FrpProxy list" where
  "parseLoop proxies current [] = flush proxies current"
| "parseLoop proxies current (text # rest) =
     (let line = TrimSpace text in
      if line = marker then parseLoop (flush proxies current) (Some emptyProxy) rest
      else (case current of
              None \<Rightarrow> parseLoop proxies None rest
            | Some c \<Rightarrow> parseLoop proxies (Some (setField c line)) rest))"

definition parse :: "string \<Rightarrow> FrpProxy list" where
  "parse content = parseLoop [] None (scanLines content)"

definition getFrpProxies :: "world \<Rightarrow> error + FrpProxy list" where
  "getFrpProxies w =
     (case frpcToml w of None \<Rightarrow> Inl FileError | Some content \<Rightarrow> Inr (parse content))"

section \<open>The registry: the writers\<close>

text \<open>The block that \<^verbatim>\<open>appendToFrpc\<close> and \<^verbatim>\<open>registerWebUIToFrpc\<close> build in their
  \<^verbatim>\<open>strings.Builder\<close>.\<close>

definition proxyBlock :: "string \<Rightarrow> string \<Rightarrow> string \<Rightarrow> string" where
  "proxyBlock name localPort remotePort =
     [NL] @ ''[[proxies]]'' @ [NL] @
     ''name = \"'' @ name @ ''\"'' @ [NL] @
     ''type = \"tcp\"'' @ [NL] @
     ''localIP = \"127.0.0.1\"'' @ [NL] @
     ''localPort = '' @ localPort @ [NL] @
     ''remotePort = '' @ remotePort @ [NL]"

text \<open>\<^verbatim>\<open>os.OpenFile(path, O_APPEND|O_WRONLY, 0644)\<close> followed by \<^verbatim>\<open>io.WriteString\<close>.\<close>

definition appendString :: "env \<Rightarrow> string \<Rightarrow> world \<Rightarrow> error option \<times> world" where
  "appendString e s w =
     (case frpcToml w of
        None \<Rightarrow> (Some FileError, w)
      | Some old \<Rightarrow>
          if \<not> writable w then (Some FileError, w)
          else (let n = written e (events w) s;
                    w' = w\<lparr>frpcToml := Some (old @ take n s),
                           events := events w @ [FileWrite s]\<rparr>
                in (if n < length s then Some ShortWrite else None, w')))"

definition proxyName :: "AddRuleRequest \<Rightarrow> string" where
  "proxyName req =
     AddRuleRequest.Name req @ ''-manager-'' @ ConnectAddr req @ ''-'' @ ConnectPort req"

definition appendToFrpc :: "env \<Rightarrow> AddRuleRequest \<Rightarrow> world \<Rightarrow> error option \<times> world" where
  "appendToFrpc e req w =
     appendString e (proxyBlock (proxyName req) (ListenPort req) (AddRuleRequest.RemotePort req)) w"

definition webUIProxyFullName :: "Config \<Rightarrow> string" where
  "webUIProxyFullName config = Config.Name config @ ''-'' @ WebUIProxyName config"

definition registerWebUIToFrpc :: "Config \<Rightarrow> env \<Rightarrow> world \<Rightarrow> error option \<times> world" where
  "registerWebUIToFrpc config e w =
     (case getFrpProxies w of
        Inl err \<Rightarrow> (Some err, w)
      | Inr proxies \<Rightarrow>
          if list_ex (\<lambda>p. FrpProxy.Name p = webUIProxyFullName config) proxies then (None, w)
          else appendString e
                 (proxyBlock (webUIProxyFullName config) (Sprintf_d (Port config))
                    (Sprintf_d (WebUIRemotePort config))) w)"

text \<open>The test of \<^verbatim>\<open>deleteFrpProxy\<close> for the end of a block under deletion.\<close>

definition sectionStart :: "string \<Rightarrow> bool" where
  "sectionStart trimmed = (trimmed = marker \<or> (prefix ''['' trimmed \<and> suffix '']'' trimmed))"

text \<open>The look-ahead of \<^verbatim>\<open>deleteFrpProxy\<close> at \<^verbatim>\<open>lines[i+1]\<close>.\<close>

definition nextNamed :: "string \<Rightarrow> string list \<Rightarrow> bool" where
  "nextNamed pn rest =
     (case rest of [] \<Rightarrow> False
      | nextLine # _ \<Rightarrow> (case reName nextLine of None \<Rightarrow> False | Some m \<Rightarrow> m = pn))"

text \<open>The loop of \<^verbatim>\<open>deleteFrpProxy\<close> over \<^verbatim>\<open>lines[i:]\<close>, with \<^verbatim>\<open>skipProxy\<close> as it is
  on entry; the result is what the loop appends to \<^verbatim>\<open>newLines\<close>.\<close>

fun deleteLoop :: "string \<Rightarrow> bool \<Rightarrow> string list \<Rightarrow> string list" where
  "deleteLoop pn skipProxy [] = []"
| "deleteLoop pn skipProxy (line # rest) =
     (let trimmed = TrimSpace line in
      if trimmed = marker \<and> nextNamed pn rest then deleteLoop pn True rest
      else (let skip = (if trimmed = marker then False else skipProxy) in
            if skip then
              (if sectionStart trimmed then line # deleteLoop pn False rest
               else deleteLoop pn True rest)
            else line # deleteLoop pn skip rest))"

definition deleteContent :: "string \<Rightarrow> string \<Rightarrow> string" where
  "deleteContent pn content = Join (deleteLoop pn False (Split content))"

text \<open>
  The words of the specification about deletion. A block named \<open>pn\<close> starts where a
  marker line is immediately followed by a name line with the value \<open>pn\<close>; it ends
  before the next marker or bracket-delimited section header. Line \<open>i\<close> belongs to a
  block under deletion when some line \<open>m \<le> i\<close> starts a block named \<open>pn\<close> and none of the
  lines \<open>m + 1, ..., i\<close> starts a section.
\<close>

definition namedBlock :: "string \<Rightarrow> string list \<Rightarrow> bool" where
  "namedBlock pn ls =
     (case ls of [] \<Rightarrow> False | l # rest \<Rightarrow> TrimSpace l = marker \<and> nextNamed pn rest)"

fun hasNamedBlock :: "string \<Rightarrow> string list \<Rightarrow> bool" where
  "hasNamedBlock pn [] = False"
| "hasNamedBlock pn (l # rest) = (namedBlock pn (l # rest) \<or> hasNamedBlock pn rest)"

definition inDeletedBlock :: "string \<Rightarrow> string list \<Rightarrow> nat \<Rightarrow> bool" where
  "inDeletedBlock pn ls i =
     list_ex (\<lambda>m. namedBlock pn (drop m ls) \<and>
                  list_all (\<lambda>l. \<not> sectionStart (TrimSpace l)) (take (i - m) (drop (Suc m) ls)))
       [0..<Suc i]"

text \<open>\<^verbatim>\<open>os.ReadFile\<close>, the loop, and \<^verbatim>\<open>os.WriteFile\<close>, which truncates the file and
  writes the new content.\<close>

definition deleteFrpProxy :: "env \<Rightarrow> string \<Rightarrow> world \<Rightarrow> error option \<times> world" where
  "deleteFrpProxy e pn w =
     (case frpcToml w of
        None \<Rightarrow> (Some FileError, w)
      | Some content \<Rightarrow>
          if \<not> writable w then (Some FileError, w)
          else (let new = deleteContent pn content;
                    n = written e (events w) new;
                    w' = w\<lparr>frpcToml := Some (take n new),
                           events := events w @ [FileWrite new]\<rparr>
                in (if n < length new then Some ShortWrite else None, w')))"

section \<open>The process locator and the supervisor\<close>

definition tasklistCmd :: "string list" where
  "tasklistCmd = [''tasklist'', ''/FI'', ''IMAGENAME eq frpc.exe'', ''/FO'', ''CSV'', ''/NH'']"

definition wmicCmd :: "string list" where
  "wmicCmd = [''wmic'', ''process'', ''where'', ''name='' @ [CHR 0x27] @ ''frpc.exe'' @ [CHR 0x27],
              ''get'', ''ProcessId'']"

definition taskkillCmd :: "string list" where
  "taskkillCmd = [''taskkill'', ''/F'', ''/IM'', ''frpc.exe'']"

definition timeoutCmd :: "string list" where
  "timeoutCmd = [''timeout'', ''/t'', ''1'', ''/nobreak'']"

definition netshAddCmd :: "string \<Rightarrow> string \<Rightarrow> string \<Rightarrow> string list" where
  "netshAddCmd listenPort connectAddr connectPort =
     [''netsh'', ''interface'', ''portproxy'', ''add'', ''v4tov4'',
      ''listenaddress=0.0.0.0'',
      ''listenport='' @ listenPort,
      ''connectaddress='' @ connectAddr,
      ''connectport='' @ connectPort]"

text \<open>\<^verbatim>\<open>getFrpcProcess\<close>: \<open>Inr None\<close> is \<^verbatim>\<open>(nil, nil)\<close>, \<open>Inr (Some pid)\<close> a process, \<open>Inl\<close> an
  error.\<close>

definition getFrpcProcess :: "env \<Rightarrow> world \<Rightarrow> (error + int option) \<times> world" where
  "getFrpcProcess e w =
     (if \<not> windows e then (Inr None, w)
      else (case exec e tasklistCmd w of
              (None, w1) \<Rightarrow> (Inl CmdError, w1)
            | (Some output, w1) \<Rightarrow>
                if \<not> Contains output ''frpc.exe'' then (Inr None, w1)
                else (case exec e wmicCmd w1 of
                        (None, w2) \<Rightarrow> (Inl CmdError, w2)
                      | (Some output2, w2) \<Rightarrow>
                          (let lines = Split output2 in
                           if length lines < 2 then (Inr None, w2)
                           else (let pidStr = TrimSpace (lines ! 1) in
                                 if pidStr = [] then (Inr None, w2)
                                 else (let pid = Sscanf_d pidStr;
                                           w3 = w2\<lparr>events := events w2 @ [FindProcess pid]\<rparr>
                                       in if findProc e (events w2) pid then (Inr (Some pid), w3)
                                          else (Inl FindProcessError, w3)))))))"

definition stopFrpc :: "env \<Rightarrow> world \<Rightarrow> error option \<times> world" where
  "stopFrpc e w =
     (if \<not> windows e then (None, w)
      else (case getFrpcProcess e w of
              (Inl err, w1) \<Rightarrow> (Some (LookupFailed err), w1)
            | (Inr None, w1) \<Rightarrow> (None, w1)
            | (Inr (Some process), w1) \<Rightarrow>
                (case exec e taskkillCmd w1 of
                   (None, w2) \<Rightarrow> (Some (StopFailed CmdError), w2)
                 | (Some out, w2) \<Rightarrow> (None, w2))))"

definition startFrpc :: "Config \<Rightarrow> env \<Rightarrow> world \<Rightarrow> error option \<times> world" where
  "startFrpc config e w =
     (if \<not> windows e then (None, w)
      else (case getFrpcProcess e w of
              (Inl err, w1) \<Rightarrow> (Some (CheckStatusFailed err), w1)
            | (Inr (Some process), w1) \<Rightarrow> (Some AlreadyRunning, w1)
            | (Inr None, w1) \<Rightarrow>
                (let w2 = w1\<lparr>events := events w1 @ [OpenLog]\<rparr> in
                 if \<not> openLog e (events w1) then (Some CreateLogFailed, w2)
                 else (let args = [FrpcExePath config, ''-c'', FrpcTomlPath config];
                           w3 = w2\<lparr>events := events w2 @ [Start args]\<rparr>
                       in if \<not> startCmd e (events w2) args then (Some StartFailed, w3)
                          else (None, w3)))))"

definition restartFrpc :: "Config \<Rightarrow> env \<Rightarrow> world \<Rightarrow> error option \<times> world" where
  "restartFrpc config e w =
     (let (stopErr, w1) = stopFrpc e w;
          w2 = (case stopErr of None \<Rightarrow> w1
                | Some err \<Rightarrow> w1\<lparr>events := events w1 @ [LogStopWarning err]\<rparr>);
          w3 = (if windows e then snd (exec e timeoutCmd w2) else w2)
      in startFrpc config e w3)"

section \<open>The add-rule handler\<close>

definition addNetshRule ::
    "env \<Rightarrow> string \<Rightarrow> string \<Rightarrow> string \<Rightarrow> world \<Rightarrow> error option \<times> world" where
  "addNetshRule e listenPort connectAddr connectPort w =
     (if \<not> windows e then (None, w)
      else (case exec e (netshAddCmd listenPort connectAddr connectPort) w of
              (None, w1) \<Rightarrow> (Some CmdError, w1)
            | (Some out, w1) \<Rightarrow> (None, w1)))"

text \<open>The answer of a handler: the status code of \<^verbatim>\<open>http.Error\<close> with the error it
  reports, or status 200.\<close>

datatype response =
    BadRequest
  | NetshFailed error
  | UpdateTomlFailed error
  | StatusOK

text \<open>\<^verbatim>\<open>handleAddRule\<close>; the body is \<open>None\<close> when the JSON decoder fails.\<close>

definition handleAddRule ::
    "Config \<Rightarrow> env \<Rightarrow> AddRuleRequest option \<Rightarrow> world \<Rightarrow> response \<times> world" where
  "handleAddRule config e body w =
     (case body of
        None \<Rightarrow> (BadRequest, w)
      | Some req \<Rightarrow>
          (case addNetshRule e (ListenPort req) (ConnectAddr req) (ConnectPort req) w of
             (Some err, w1) \<Rightarrow> (NetshFailed err, w1)
           | (None, w1) \<Rightarrow>
               (case appendToFrpc e req w1 of
                  (Some err, w2) \<Rightarrow> (UpdateTomlFailed err, w2)
                | (None, w2) \<Rightarrow> (StatusOK, snd (restartFrpc config e w2)))))"

section \<open>Notions of the claims\<close>

subsection \<open>Files\<close>

text \<open>Every line fits the buffer of the scanner.\<close>

definition shortLines :: "string list \<Rightarrow> bool" where
  "shortLines ls = list_all (\<lambda>l. length l < MaxScanTokenSize) ls"

text \<open>The number of parsed records with a given name, and the number of marker lines.\<close>

definition namedCount :: "string \<Rightarrow> string \<Rightarrow> nat" where
  "namedCount name content = length (filter (\<lambda>p. FrpProxy.Name p = name) (parse content))"

definition markerCount :: "string \<Rightarrow> nat" where
  "markerCount content = length (filter (\<lambda>l. TrimSpace l = marker) (Split content))"

subsection \<open>Well-formed blocks and requests\<close>

text \<open>A byte that occurs in no encoding of a white-space code point.\<close>

definition plain :: "char \<Rightarrow> bool" where
  "plain c = (c \<notin> \<Union> (set ` set unicodeSpaces))"

text \<open>
  The lines of a block as \<^const>\<open>proxyBlock\<close> writes it; the condition under which the scanner
  and \<^const>\<open>TrimSpace\<close> give them back as they are (no newline in a field, a port that does not
  end in white space, lines that fit the buffer); and the record the parser then builds.
\<close>

definition blockLines :: "string \<Rightarrow> string \<Rightarrow> string \<Rightarrow> string list" where
  "blockLines n lp rp =
     [''[[proxies]]'', ''name = \"'' @ n @ ''\"'', ''type = \"tcp\"'', ''localIP = \"127.0.0.1\"'',
      ''localPort = '' @ lp, ''remotePort = '' @ rp]"

definition wellFormedBlock :: "string \<Rightarrow> string \<Rightarrow> string \<Rightarrow> bool" where
  "wellFormedBlock n lp rp =
     (NL \<notin> set n \<and> NL \<notin> set lp \<and> NL \<notin> set rp
      \<and> lp \<noteq> [] \<and> plain (last lp) \<and> rp \<noteq> [] \<and> plain (last rp)
      \<and> length n + 9 < MaxScanTokenSize \<and> length lp + 12 < MaxScanTokenSize
      \<and> length rp + 13 < MaxScanTokenSize)"

definition blockProxy :: "string \<Rightarrow> string \<Rightarrow> string \<Rightarrow> FrpProxy" where
  "blockProxy n lp rp =
     \<lparr>FrpProxy.Name = n, Type = ''tcp'', LocalIP = ''127.0.0.1'',
      LocalPort = takeWhile reDigit (dropWhile reSpace lp),
      RemotePort = takeWhile reDigit (dropWhile reSpace rp)\<rparr>"

text \<open>
  A well-formed request: no newline in the parts of the name, ports that are non-empty
  digit strings, and lines that fit the buffer of the scanner. The record it stands for.
  Serialising a list of requests appends their blocks in order, stopping at the first
  error.
\<close>

definition wellFormedRequest :: "AddRuleRequest \<Rightarrow> bool" where
  "wellFormedRequest req =
     (NL \<notin> set (AddRuleRequest.Name req) \<and> NL \<notin> set (ConnectAddr req) \<and> NL \<notin> set (ConnectPort req)
      \<and> ListenPort req \<noteq> [] \<and> list_all reDigit (ListenPort req)
      \<and> AddRuleRequest.RemotePort req \<noteq> [] \<and> list_all reDigit (AddRuleRequest.RemotePort req)
      \<and> length (proxyName req) + 9 < MaxScanTokenSize
      \<and> length (ListenPort req) + 12 < MaxScanTokenSize
      \<and> length (AddRuleRequest.RemotePort req) + 13 < MaxScanTokenSize)"

definition requestProxy :: "AddRuleRequest \<Rightarrow> FrpProxy" where
  "requestProxy req =
     \<lparr>FrpProxy.Name = proxyName req, Type = ''tcp'', LocalIP = ''127.0.0.1'',
      LocalPort = ListenPort req, RemotePort = AddRuleRequest.RemotePort req\<rparr>"

fun appendAll :: "env \<Rightarrow> AddRuleRequest list \<Rightarrow> world \<Rightarrow> error option \<times> world" where
  "appendAll e [] w = (None, w)"
| "appendAll e (req # reqs) w =
     (case appendToFrpc e req w of
        (Some err, w') \<Rightarrow> (Some err, w')
      | (None, w') \<Rightarrow> appendAll e reqs w')"

text \<open>The range of a Go \<^verbatim>\<open>int\<close> on the 64-bit target of the build.\<close>

definition goInt :: "int \<Rightarrow> bool" where
  "goInt i = (- (2 ^ 63) \<le> i \<and> i < 2 ^ 63)"

subsection \<open>Events\<close>

text \<open>The events of a call: those of the world after it that the world before it did not
  have. The launches among them, and the events of the process locator.\<close>

definition newEvents :: "world \<Rightarrow> world \<Rightarrow> event list" where
  "newEvents w w' = drop (length (events w)) (events w')"

fun isStart :: "event \<Rightarrow> bool" where
  "isStart (Start args) = True"
| "isStart ev = False"

definition lookupEvent :: "event \<Rightarrow> bool" where
  "lookupEvent ev = (ev = Exec tasklistCmd \<or> ev = Exec wmicCmd \<or> (\<exists>pid. ev = FindProcess pid))"

text \<open>What \<^verbatim>\<open>restartFrpc\<close> logs after the stop.\<close>

definition stopLog :: "error option \<Rightarrow> event list" where
  "stopLog stopErr = (case stopErr of None \<Rightarrow> [] | Some err \<Rightarrow> [LogStopWarning err])"

subsection \<open>Notions of the proofs\<close>

text \<open>Line \<open>i\<close> of \<open>ls\<close> is left out by the deletion loop entered with \<^verbatim>\<open>skipProxy = sk\<close>.\<close>

definition skippedLine :: "string \<Rightarrow> bool \<Rightarrow> string list \<Rightarrow> nat \<Rightarrow> bool" where
  "skippedLine pn sk ls i =
     ((sk \<and> list_all (\<lambda>l. \<not> sectionStart (TrimSpace l)) (take (Suc i) ls)) \<or> inDeletedBlock pn ls i)"

text \<open>One pass of the loop of \<^verbatim>\<open>getFrpProxies\<close> on the pair of \<^verbatim>\<open>proxies\<close> and \<^verbatim>\<open>current\<close>.\<close>

definition parseStep ::
    "FrpProxy list \<times> FrpProxy option \<Rightarrow> string \<Rightarrow> FrpProxy list \<times> FrpProxy option" where
  "parseStep st text =
     (case st of (proxies, current) \<Rightarrow>
        if TrimSpace text = marker then (flush proxies current, Some emptyProxy)
        else (case current of None \<Rightarrow> (proxies, None)
              | Some c \<Rightarrow> (proxies, Some (setField c (TrimSpace text)))))"

section \<open>Concrete worlds\<close>

text \<open>The configuration that \<^verbatim>\<open>main\<close> falls back to, and one with a newline in the identity.\<close>

definition defaultConfig :: Config where
  "defaultConfig = \<lparr>Port = 8080, FrpcTomlPath = ''frpc.toml'', FrpcExePath = ''frpc.exe'',
     AutoRegisterToFrp = True, WebUIProxyName = ''portproxy-manager-web'',
     WebUIRemotePort = 18080, Name = ''default''\<rparr>"

definition newlineConfig :: Config where
  "newlineConfig = defaultConfig\<lparr>Config.Name := ''a'' @ [NL] @ ''b''\<rparr>"

text \<open>Two requests.\<close>

definition bobRequest :: AddRuleRequest where
  "bobRequest = \<lparr>ListenPort = ''9000'', ConnectAddr = ''10.0.0.9'', ConnectPort = ''443'',
     RemotePort = ''7000'', Type = ''tcp'', Name = ''bob''\<rparr>"

definition aliceRequest :: AddRuleRequest where
  "aliceRequest = \<lparr>ListenPort = ''8000'', ConnectAddr = ''10.0.0.5'', ConnectPort = ''80'',
     RemotePort = ''6000'', Type = ''tcp'', Name = ''alice''\<rparr>"

text \<open>
  Registry files: one with four blocks, two of them named \<open>web\<close>; one whose first line
  is a comment of 65536 bytes; the block \<^verbatim>\<open>registerWebUIToFrpc\<close> writes for the default
  configuration, and the one it writes for the configuration with the newline.
\<close>

definition exampleRegistry :: string where
  "exampleRegistry =
     ''[common]'' @ [NL] @ proxyBlock ''web'' ''80'' ''8080'' @ proxyBlock ''web-2'' ''81'' ''8081''
       @ proxyBlock ''my-web'' ''82'' ''8082'' @ proxyBlock ''web'' ''83'' ''8083''"

definition longLineRegistry :: string where
  "longLineRegistry =
     replicate 65536 (CHR ''#'') @ [NL] @ ''[[proxies]]'' @ [NL] @ ''name = \"web\"''"

definition webUIBlock :: string where
  "webUIBlock = proxyBlock ''default-portproxy-manager-web'' ''8080'' ''18080''"

definition newlineBlock :: string where
  "newlineBlock = proxyBlock (''a'' @ [NL] @ ''b-portproxy-manager-web'') ''8080'' ''18080''"

text \<open>
  Worlds: one with a given registry file, one without a registry file, the one after a
  complete deletion in \<open>fileWorld content\<close>, and the one after complete appends of blocks
  to it.
\<close>

definition fileWorld :: "string \<Rightarrow> world" where
  "fileWorld content = \<lparr>frpcToml = Some content, writable = True, events = []\<rparr>"

definition noFileWorld :: world where
  "noFileWorld = \<lparr>frpcToml = None, writable = True, events = []\<rparr>"

definition afterDelete :: "string \<Rightarrow> string \<Rightarrow> world" where
  "afterDelete pn content =
     \<lparr>frpcToml = Some (deleteContent pn content), writable = True,
      events = [FileWrite (deleteContent pn content)]\<rparr>"

definition afterAppend :: "string \<Rightarrow> string list \<Rightarrow> world" where
  "afterAppend content blocks =
     \<lparr>frpcToml = Some (content @ concat blocks), writable = True, events = map FileWrite blocks\<rparr>"

text \<open>
  Operating systems, all Windows and, but for \<open>fullDiskEnv\<close>, all with complete writes. On
  \<open>quietEnv\<close> every command succeeds and prints nothing, so the probe finds no client. On
  \<open>fullDiskEnv\<close> the same holds, and no byte of a write reaches the file. On
  \<open>netshFailsEnv\<close> every command fails. On \<open>stuckEnv\<close> the client runs with the process identifier 1234 and
  cannot be killed. On \<open>exitedEnv\<close> the probe finds the client and the process-table query
  prints a header and a blank line: the client has exited between the two queries. On
  \<open>garbageEnv ok\<close> the probe finds the client and the process-table query prints \<^verbatim>\<open>abc\<close>
  for the number, \<open>ok\<close> being the answer of \<^verbatim>\<open>os.FindProcess\<close>.
\<close>

definition quietEnv :: env where
  "quietEnv = \<lparr>windows = True, cmdOutput = (\<lambda>ev args. Some []), findProc = (\<lambda>ev pid. True),
     openLog = (\<lambda>ev. True), startCmd = (\<lambda>ev args. True), written = (\<lambda>ev s. length s)\<rparr>"

definition fullDiskEnv :: env where
  "fullDiskEnv = \<lparr>windows = True, cmdOutput = (\<lambda>ev args. Some []), findProc = (\<lambda>ev pid. True),
     openLog = (\<lambda>ev. True), startCmd = (\<lambda>ev args. True), written = (\<lambda>ev s. 0)\<rparr>"

definition netshFailsEnv :: env where
  "netshFailsEnv = \<lparr>windows = True, cmdOutput = (\<lambda>ev args. None), findProc = (\<lambda>ev pid. True),
     openLog = (\<lambda>ev. True), startCmd = (\<lambda>ev args. True), written = (\<lambda>ev s. length s)\<rparr>"

definition stuckEnv :: env where
  "stuckEnv = \<lparr>windows = True,
     cmdOutput = (\<lambda>ev args.
        if args = tasklistCmd then Some ''\"frpc.exe\",\"1234\"''
        else if args = wmicCmd then Some (''ProcessId'' @ [NL] @ ''1234'' @ [NL])
        else if args = taskkillCmd then None
        else Some []),
     findProc = (\<lambda>ev pid. True), openLog = (\<lambda>ev. True), startCmd = (\<lambda>ev args. True),
     written = (\<lambda>ev s. length s)\<rparr>"

definition exitedEnv :: env where
  "exitedEnv = \<lparr>windows = True,
     cmdOutput = (\<lambda>ev args.
        if args = tasklistCmd then Some ''\"frpc.exe\",\"1234\"''
        else if args = wmicCmd then Some (''ProcessId'' @ [CR, NL, CR, NL])
        else Some []),
     findProc = (\<lambda>ev pid. True), openLog = (\<lambda>ev. True), startCmd = (\<lambda>ev args. True),
     written = (\<lambda>ev s. length s)\<rparr>"

definition garbageEnv :: "bool \<Rightarrow> env" where
  "garbageEnv ok = \<lparr>windows = True,
     cmdOutput = (\<lambda>ev args.
        if args = tasklistCmd then Some ''\"frpc.exe\",\"1234\"''
        else if args = wmicCmd then Some (''ProcessId'' @ [NL] @ ''abc'' @ [NL])
        else Some []),
     findProc = (\<lambda>ev pid. ok), openLog = (\<lambda>ev. True), startCmd = (\<lambda>ev args. True),
     written = (\<lambda>ev s. length s)\<rparr>"

section \<open>Lines and joins\<close>

text \<open>
  \<^const>\<open>Join\<close> undoes \<^const>\<open>Split\<close>, and \<^const>\<open>Split\<close> undoes \<^const>\<open>Join\<close> on a non-empty list of lines
  without newlines; a newline in the text is where the list of lines is cut.
\<close>


lemma Split_not_Nil [simp]: "Split s \<noteq> []"
  by (induction s) (auto split: list.splits)

lemma Split_no_NL: "l \<in> set (Split s) \<Longrightarrow> NL \<notin> set l"
  by (induction s arbitrary: l) (auto split: list.splits if_splits)

lemma Join_Cons: "ls \<noteq> [] \<Longrightarrow> Join (l # ls) = l @ NL # Join ls"
  by (cases ls) auto

lemma Join_Split [simp]: "Join (Split s) = s"
proof (induction s)
  case Nil
  show ?case by simp
next
  case (Cons c cs)
  show ?case
  proof (cases "c = NL")
    case True
    with Cons show ?thesis by (simp add: Join_Cons)
  next
    case False
    obtain l ls where sp: "Split cs = l # ls" by (cases "Split cs") auto
    with Cons have "Join (l # ls) = cs" by simp
    then have "Join ((c # l) # ls) = c # cs" by (cases ls) auto
    with False sp show ?thesis by simp
  qed
qed

lemma Split_noNL: "NL \<notin> set s \<Longrightarrow> Split s = [s]"
  by (induction s) auto

lemma Split_append_NL: "Split (a @ NL # b) = Split a @ Split b"
  by (induction a) (auto split: list.splits)

lemma Split_Join: "ls \<noteq> [] \<Longrightarrow> \<forall>l\<in>set ls. NL \<notin> set l \<Longrightarrow> Split (Join ls) = ls"
proof (induction ls rule: Join.induct)
  case 1
  then show ?case by simp
next
  case (2 l)
  then show ?case by (simp add: Split_noNL)
next
  case (3 l v va)
  then show ?case by (simp add: Split_append_NL Split_noNL)
qed

lemma Split_Join_Nil: "Split (Join []) = [[]]"
  by simp

subsection \<open>White space\<close>

lemma stripLeading_plain:
  assumes "c \<notin> \<Union> (set ` set sps)"
  shows "stripLeading sps (c # r) = c # r"
proof -
  have "find (\<lambda>sp. sp \<noteq> [] \<and> prefix sp (c # r)) sps = None"
  proof (rule ccontr)
    assume "find (\<lambda>sp. sp \<noteq> [] \<and> prefix sp (c # r)) sps \<noteq> None"
    then obtain sp where "find (\<lambda>sp. sp \<noteq> [] \<and> prefix sp (c # r)) sps = Some sp" by auto
    then obtain i where "i < length sps" "sps ! i = sp" "sp \<noteq> []" "prefix sp (c # r)"
      by (auto simp: find_Some_iff)
    then have "sp \<in> set sps" and "c \<in> set sp"
      using nth_mem[of i sps] by (auto simp: prefix_Cons)
    with assms show False by auto
  qed
  then show ?thesis by (subst stripLeading.simps) simp
qed

lemma stripLeading_snoc_plain:
  assumes "c \<notin> \<Union> (set ` set sps)"
  shows "\<exists>xs'. stripLeading sps (xs @ [c]) = xs' @ [c]"
proof (induction "length xs" arbitrary: xs rule: less_induct)
  case less
  show ?case
  proof (cases "find (\<lambda>sp. sp \<noteq> [] \<and> prefix sp (xs @ [c])) sps")
    case None
    then show ?thesis by (subst stripLeading.simps) simp
  next
    case (Some sp)
    then obtain i where "i < length sps" "sps ! i = sp" and ne: "sp \<noteq> []" and pre: "prefix sp (xs @ [c])"
      by (auto simp: find_Some_iff)
    then have "sp \<in> set sps" using nth_mem[of i sps] by auto
    with assms have "c \<notin> set sp" by auto
    with pre have pxs: "prefix sp xs" by (auto simp: prefix_snoc)
    then have d: "drop (length sp) (xs @ [c]) = drop (length sp) xs @ [c]"
      by (auto simp: prefix_def)
    from pxs ne have "length (drop (length sp) xs) < length xs"
      by (cases xs) (auto simp: prefix_def)
    from less[OF this] obtain xs' where "stripLeading sps (drop (length sp) xs @ [c]) = xs' @ [c]" by auto
    with Some d show ?thesis by (subst stripLeading.simps) simp
  qed
qed

lemma plain_rev: "plain c \<Longrightarrow> c \<notin> \<Union> (set ` set (map rev unicodeSpaces))"
  by (auto simp: plain_def)

lemma TrimSpace_id:
  assumes "s \<noteq> []" "plain (hd s)" "plain (last s)"
  shows "TrimSpace s = s"
proof -
  from assms obtain c r where s: "s = c # r" by (cases s) auto
  with assms have 1: "stripLeading unicodeSpaces s = s"
    by (simp add: stripLeading_plain plain_def)
  from assms obtain q where r: "rev s = last s # q"
    by (cases s rule: rev_cases) auto
  from assms have "stripLeading (map rev unicodeSpaces) (last s # q) = last s # q"
    using stripLeading_plain[OF plain_rev, of "last s" q] by simp
  then have "stripLeading (map rev unicodeSpaces) (rev s) = rev s"
    by (simp only: r)
  with 1 show ?thesis by (simp add: TrimSpace_def)
qed

lemma stripLeading_reSpace:
  assumes "\<forall>c\<in>set ws. reSpace c"
  shows "stripLeading unicodeSpaces (ws @ s) = stripLeading unicodeSpaces s"
  using assms
proof (induction ws)
  case Nil
  show ?case by simp
next
  case (Cons c ws)
  then have "reSpace c" by simp
  then have "find (\<lambda>sp. sp \<noteq> [] \<and> prefix sp (c # ws @ s)) unicodeSpaces = Some [c]"
    unfolding reSpace_def unicodeSpaces_def by (elim disjE) simp_all
  then have "stripLeading unicodeSpaces ((c # ws) @ s) = stripLeading unicodeSpaces (ws @ s)"
    by (subst stripLeading.simps) simp
  with Cons show ?case by simp
qed

lemma TrimSpace_first:
  assumes "\<forall>c\<in>set ws. reSpace c" "plain c"
  shows "\<exists>t. TrimSpace (ws @ c # r) = c # t"
proof -
  have 1: "stripLeading unicodeSpaces (ws @ c # r) = c # r"
    using assms by (simp add: stripLeading_reSpace stripLeading_plain plain_def)
  obtain xs' where "stripLeading (map rev unicodeSpaces) (rev r @ [c]) = xs' @ [c]"
    using stripLeading_snoc_plain[OF plain_rev[OF assms(2)]] by blast
  with 1 show ?thesis by (simp add: TrimSpace_def)
qed

section \<open>The deletion loop\<close>

text \<open>
  A line that starts a section is no name line, so that the look-ahead of the loop never
  matches a marker or a section header. The loop is then described step by step, and as
  the choice of the lines that belong to no block under deletion.
\<close>


lemma plain_n: "plain (CHR ''n'')"
  by (simp add: plain_def unicodeSpaces_def)

lemma afterKey_shape:
  assumes "afterKey (k # key) l = Some v"
  shows "\<exists>ws r. l = ws @ k # r \<and> (\<forall>c\<in>set ws. reSpace c)"
proof -
  from assms have "prefix (k # key) (dropWhile reSpace l)"
    by (auto simp: afterKey_def Let_def split: if_splits)
  then obtain r where "dropWhile reSpace l = k # r"
    by (auto simp: prefix_def)
  then have "l = takeWhile reSpace l @ k # r"
    by (metis takeWhile_dropWhile_id)
  moreover have "\<forall>c\<in>set (takeWhile reSpace l). reSpace c"
    by (auto dest: set_takeWhileD)
  ultimately show ?thesis by blast
qed

lemma reName_shape:
  assumes "reName l = Some v"
  shows "\<exists>ws r. l = ws @ CHR ''n'' # r \<and> (\<forall>c\<in>set ws. reSpace c)"
proof -
  from assms obtain u where "afterKey ''name'' l = Some u"
    by (auto simp: reName_def matchQuoted_def split: option.splits)
  then show ?thesis by (rule afterKey_shape)
qed

lemma sectionStart_not_named:
  assumes "sectionStart (TrimSpace l)"
  shows "reName l = None"
proof (rule ccontr)
  assume "reName l \<noteq> None"
  then obtain v where "reName l = Some v" by auto
  from reName_shape[OF this] obtain ws r where
    l: "l = ws @ CHR ''n'' # r" and ws: "\<forall>c\<in>set ws. reSpace c" by blast
  from TrimSpace_first[OF ws plain_n, of r] l obtain t where "TrimSpace l = CHR ''n'' # t"
    by auto
  with assms show False
    by (simp add: sectionStart_def marker_def)
qed


lemma nextNamed_Cons: "nextNamed pn (l # rest) = (reName l = Some pn)"
  by (auto simp: nextNamed_def split: option.splits)

lemma nextNamed_Nil: "nextNamed pn [] = False"
  by (simp add: nextNamed_def)

lemma nextNamed_sectionStart:
  "sectionStart (TrimSpace l) \<Longrightarrow> \<not> nextNamed pn (l # rest)"
  by (simp add: nextNamed_Cons sectionStart_not_named)

lemma namedBlock_Cons:
  "namedBlock pn (l # rest) = (TrimSpace l = marker \<and> nextNamed pn rest)"
  by (simp add: namedBlock_def)

lemma namedBlock_Nil: "namedBlock pn [] = False"
  by (simp add: namedBlock_def)

text \<open>One step of the loop, by the three cases of the line.\<close>

lemma deleteLoop_named:
  "namedBlock pn (l # rest) \<Longrightarrow> deleteLoop pn sk (l # rest) = deleteLoop pn True rest"
  by (simp add: namedBlock_Cons)

lemma deleteLoop_section:
  "\<not> namedBlock pn (l # rest) \<Longrightarrow> sectionStart (TrimSpace l) \<Longrightarrow>
     deleteLoop pn sk (l # rest) = l # deleteLoop pn False rest"
  by (auto simp: namedBlock_Cons Let_def)

lemma deleteLoop_inner:
  "\<not> sectionStart (TrimSpace l) \<Longrightarrow>
     deleteLoop pn sk (l # rest) = (if sk then deleteLoop pn True rest else l # deleteLoop pn False rest)"
  by (auto simp: Let_def sectionStart_def)

lemma not_section_not_named: "\<not> sectionStart (TrimSpace l) \<Longrightarrow> \<not> namedBlock pn (l # rest)"
  by (auto simp: namedBlock_Cons sectionStart_def)

lemma deleteLoop_cases:
  obtains (named) "namedBlock pn (l # rest)" and "sectionStart (TrimSpace l)"
  | (header) "\<not> namedBlock pn (l # rest)" and "sectionStart (TrimSpace l)"
  | (inner) "\<not> namedBlock pn (l # rest)" and "\<not> sectionStart (TrimSpace l)"
  using not_section_not_named by blast

declare deleteLoop.simps(2) [simp del]

lemma deleteLoop_no_named:
  "\<not> hasNamedBlock pn ls \<Longrightarrow> deleteLoop pn False ls = ls"
proof (induction ls)
  case Nil
  show ?case by simp
next
  case (Cons l rest)
  then have nb: "\<not> namedBlock pn (l # rest)" and ih: "deleteLoop pn False rest = rest" by auto
  show ?case
  proof (cases "sectionStart (TrimSpace l)")
    case True
    with nb ih show ?thesis by (simp add: deleteLoop_section)
  next
    case False
    with ih show ?thesis by (simp add: deleteLoop_inner)
  qed
qed

lemma deleteLoop_hd:
  "deleteLoop pn sk ls = x # out \<Longrightarrow>
     sectionStart (TrimSpace x) \<or> (\<not> sk \<and> (\<exists>rest. ls = x # rest \<and> \<not> namedBlock pn ls))"
proof (induction ls arbitrary: sk)
  case Nil
  then show ?case by simp
next
  case (Cons l rest)
  show ?case
  proof (cases rule: deleteLoop_cases[of pn l rest])
    case named
    with Cons.prems have "deleteLoop pn True rest = x # out" by (simp add: deleteLoop_named)
    from Cons.IH[OF this] show ?thesis by simp
  next
    case header
    with Cons.prems have "x = l" by (simp add: deleteLoop_section)
    with header show ?thesis by simp
  next
    case inner
    show ?thesis
    proof (cases sk)
      case True
      with inner Cons.prems have "deleteLoop pn True rest = x # out"
        by (simp add: deleteLoop_inner)
      from Cons.IH[OF this] show ?thesis by simp
    next
      case False
      with inner Cons.prems have "x = l" by (simp add: deleteLoop_inner)
      with inner False show ?thesis by simp
    qed
  qed
qed

lemma not_named_kept:
  assumes "\<not> namedBlock pn (l # rest)"
  shows "\<not> namedBlock pn (l # deleteLoop pn False rest)"
proof (cases "deleteLoop pn False rest")
  case Nil
  then show ?thesis by (simp add: namedBlock_Cons nextNamed_Nil)
next
  case (Cons x out)
  from deleteLoop_hd[OF this] show ?thesis
  proof
    assume "sectionStart (TrimSpace x)"
    with Cons show ?thesis by (simp add: namedBlock_Cons nextNamed_sectionStart)
  next
    assume "\<not> False \<and> (\<exists>r. rest = x # r \<and> \<not> namedBlock pn rest)"
    then obtain r where "rest = x # r" by blast
    with assms Cons show ?thesis by (simp add: namedBlock_Cons nextNamed_Cons)
  qed
qed

lemma deleteLoop_clean: "\<not> hasNamedBlock pn (deleteLoop pn sk ls)"
proof (induction ls arbitrary: sk)
  case Nil
  show ?case by simp
next
  case (Cons l rest)
  show ?case
  proof (cases rule: deleteLoop_cases[of pn l rest])
    case named
    then show ?thesis using Cons.IH by (simp add: deleteLoop_named)
  next
    case header
    then show ?thesis using Cons.IH[of False] not_named_kept[of pn l rest]
      by (simp add: deleteLoop_section)
  next
    case inner
    then show ?thesis using Cons.IH[of False] Cons.IH[of True] not_named_kept[of pn l rest]
      by (cases sk) (simp_all add: deleteLoop_inner)
  qed
qed


lemma inDeletedBlock_Cons_0: "inDeletedBlock pn (l # rest) 0 = namedBlock pn (l # rest)"
  by (simp add: inDeletedBlock_def)

lemma inDeletedBlock_ex:
  "inDeletedBlock pn ls i =
     (\<exists>m<Suc i. namedBlock pn (drop m ls) \<and>
          list_all (\<lambda>l. \<not> sectionStart (TrimSpace l)) (take (i - m) (drop (Suc m) ls)))"
  unfolding inDeletedBlock_def list_ex_iff Bex_def set_upt atLeastLessThan_iff
  by simp

lemma inDeletedBlock_Cons_Suc:
  "inDeletedBlock pn (l # rest) (Suc j) =
     ((namedBlock pn (l # rest) \<and> list_all (\<lambda>l. \<not> sectionStart (TrimSpace l)) (take (Suc j) rest))
      \<or> inDeletedBlock pn rest j)"
  unfolding inDeletedBlock_ex[of pn "l # rest"] inDeletedBlock_ex[of pn rest]
  by (subst Ex_less_Suc2) simp

lemma skippedLine_Cons_0:
  "skippedLine pn sk (l # rest) 0 = ((sk \<and> \<not> sectionStart (TrimSpace l)) \<or> namedBlock pn (l # rest))"
  by (simp add: skippedLine_def inDeletedBlock_Cons_0)

lemma skippedLine_Cons_Suc:
  "skippedLine pn sk (l # rest) (Suc j) =
     (if namedBlock pn (l # rest) then skippedLine pn True rest j
      else if sectionStart (TrimSpace l) then skippedLine pn False rest j
      else skippedLine pn sk rest j)"
  using not_section_not_named[of l pn rest]
  by (auto simp: skippedLine_def inDeletedBlock_Cons_Suc)

lemma deleteLoop_nths:
  "deleteLoop pn sk ls = nths ls {i. \<not> skippedLine pn sk ls i}"
proof (induction ls arbitrary: sk)
  case Nil
  show ?case by simp
next
  case (Cons l rest)
  show ?case
  proof (cases rule: deleteLoop_cases[of pn l rest])
    case named
    then show ?thesis
      by (simp add: deleteLoop_named nths_Cons skippedLine_Cons_0 skippedLine_Cons_Suc Cons.IH)
  next
    case header
    then show ?thesis
      by (simp add: deleteLoop_section nths_Cons skippedLine_Cons_0 skippedLine_Cons_Suc Cons.IH)
  next
    case inner
    then show ?thesis
      by (simp add: deleteLoop_inner nths_Cons skippedLine_Cons_0 skippedLine_Cons_Suc Cons.IH)
  qed
qed

lemma nths_map_filter: "nths ls A = map (nth ls) (filter (\<lambda>i. i \<in> A) [0..<length ls])"
proof -
  have "zip ls [0..<length ls] = map (\<lambda>i. (ls ! i, i)) [0..<length ls]"
    by (rule nth_equalityI) auto
  then show ?thesis
    by (simp add: nths_def filter_map comp_def)
qed

lemma deleteLoop_kept_lines:
  "deleteLoop pn False ls =
     map (nth ls) (filter (\<lambda>i. \<not> inDeletedBlock pn ls i) [0..<length ls])"
proof -
  have "deleteLoop pn False ls = nths ls {i. \<not> inDeletedBlock pn ls i}"
    by (simp add: deleteLoop_nths skippedLine_def)
  also have "\<dots> = map (nth ls) (filter (\<lambda>i. \<not> inDeletedBlock pn ls i) [0..<length ls])"
    by (simp add: nths_map_filter)
  finally show ?thesis .
qed



section \<open>Deleting from the registry file\<close>

text \<open>
  The file after a deletion holds no block with the target name, so that a second
  deletion changes nothing; and whoever appends only adds to the end of the file.
\<close>


lemma deleteLoop_subset: "set (deleteLoop pn sk ls) \<subseteq> set ls"
  by (auto simp: deleteLoop_nths dest: in_set_nthsD)

lemma Split_deleteContent:
  "deleteLoop pn False (Split content) \<noteq> [] \<Longrightarrow>
     Split (deleteContent pn content) = deleteLoop pn False (Split content)"
  unfolding deleteContent_def
  using deleteLoop_subset[of pn False "Split content"] Split_no_NL[of _ content]
  by (intro Split_Join) auto

lemma hasNamedBlock_single: "\<not> hasNamedBlock pn [l]"
  by (simp add: namedBlock_Cons nextNamed_Nil)

lemma deleteContent_clean: "\<not> hasNamedBlock pn (Split (deleteContent pn content))"
proof (cases "deleteLoop pn False (Split content) = []")
  case True
  then show ?thesis using hasNamedBlock_single[of pn "[]"] by (simp add: deleteContent_def)
next
  case False
  then show ?thesis by (simp add: Split_deleteContent deleteLoop_clean)
qed

lemma deleteContent_no_named:
  "\<not> hasNamedBlock pn (Split content) \<Longrightarrow> deleteContent pn content = content"
  by (simp add: deleteContent_def deleteLoop_no_named)


lemma deleteFrpProxy_ok:
  assumes "deleteFrpProxy e pn w = (None, w1)"
  shows "\<exists>content. frpcToml w = Some content \<and> frpcToml w1 = Some (deleteContent pn content)"
  using assms
  by (auto simp: deleteFrpProxy_def Let_def split: option.splits if_splits)

lemma appendString_extends:
  "frpcToml w = Some old \<Longrightarrow> \<exists>n. frpcToml (snd (appendString e s w)) = Some (old @ take n s)"
proof (cases "writable w")
  case True
  assume "frpcToml w = Some old"
  with True show ?thesis by (auto simp: appendString_def Let_def)
next
  case False
  assume "frpcToml w = Some old"
  with False have "frpcToml (snd (appendString e s w)) = Some (old @ take 0 s)"
    by (simp add: appendString_def)
  then show ?thesis by blast
qed


lemma registerWebUIToFrpc_extends:
  assumes "frpcToml w = Some old"
  shows "\<exists>added. frpcToml (snd (registerWebUIToFrpc config e w)) = Some (old @ added)"
proof (cases "list_ex (\<lambda>p. FrpProxy.Name p = webUIProxyFullName config) (parse old)")
  case True
  with assms have "frpcToml (snd (registerWebUIToFrpc config e w)) = Some (old @ [])"
    by (simp add: registerWebUIToFrpc_def getFrpProxies_def)
  then show ?thesis by blast
next
  case False
  with assms show ?thesis
    using appendString_extends[OF assms, of e
        "proxyBlock (webUIProxyFullName config) (Sprintf_d (Port config))
           (Sprintf_d (WebUIRemotePort config))"]
    by (auto simp: registerWebUIToFrpc_def getFrpProxies_def)
qed

subsection \<open>Examples\<close>


lemmas string_eval =
  TrimSpace_def unicodeSpaces_def stripLeading.simps reName_def reType_def reLocalIP_def
  reLocalPort_def reRemotePort_def matchQuoted_def matchNumber_def afterKey_def reSpace_def
  reDigit_def marker_def sectionStart_def nextNamed_def namedBlock_def proxyBlock_def Let_def

lemma example_delete_web:
  "deleteContent ''web'' exampleRegistry =
     ''[common]'' @ [NL] @ proxyBlock ''web-2'' ''81'' ''8081'' @ proxyBlock ''my-web'' ''82'' ''8082''"
  by (simp add: deleteContent_def exampleRegistry_def deleteLoop.simps string_eval)

lemma example_no_ssh: "\<not> hasNamedBlock ''ssh'' (Split exampleRegistry)"
  by (simp add: exampleRegistry_def string_eval)


lemma example_delete_run:
  "deleteFrpProxy quietEnv pn (fileWorld content) = (None, afterDelete pn content)"
  by (simp add: deleteFrpProxy_def quietEnv_def fileWorld_def afterDelete_def Let_def)


lemma example_has_web: "hasNamedBlock ''web'' (Split exampleRegistry)"
  by (simp add: exampleRegistry_def string_eval)



subsection \<open>The claims about mutation and deletion\<close>

text \<open>
  Claim C1, as amended. Appending (\<^verbatim>\<open>appendToFrpc\<close>, and the append of
  \<^verbatim>\<open>registerWebUIToFrpc\<close>) only adds bytes after the old content, whatever the outcome of
  the write, also a write that fails half-way. A deletion that returns no error leaves
  exactly the lines of the old file that do not belong to a block under deletion, each
  byte for byte and in the old order, joined by newlines. A deletion that fails because the
  file cannot be read or opened leaves the world as it is.
\<close>

theorem mutation_frame:
  "(frpcToml w = Some old \<longrightarrow>
      (\<exists>n. frpcToml (snd (appendToFrpc e req w)) =
            Some (old @ take n (proxyBlock (proxyName req) (ListenPort req)
                                   (AddRuleRequest.RemotePort req)))))
   \<and> (frpcToml w = Some old \<longrightarrow>
      (\<exists>added. frpcToml (snd (registerWebUIToFrpc config e w)) = Some (old @ added)))
   \<and> (deleteFrpProxy e pn w = (None, w1) \<longrightarrow>
      (\<exists>content. frpcToml w = Some content \<and>
         frpcToml w1 =
           Some (Join (map (nth (Split content))
                    (filter (\<lambda>i. \<not> inDeletedBlock pn (Split content) i)
                       [0..<length (Split content)])))))
   \<and> (fst (deleteFrpProxy e' pn' w') = Some FileError \<longrightarrow>
      snd (deleteFrpProxy e' pn' w') = w')"
proof (intro conjI impI)
  assume "frpcToml w = Some old"
  then show "\<exists>n. frpcToml (snd (appendToFrpc e req w)) =
            Some (old @ take n (proxyBlock (proxyName req) (ListenPort req)
                                   (AddRuleRequest.RemotePort req)))"
    unfolding appendToFrpc_def by (rule appendString_extends)
next
  assume "frpcToml w = Some old"
  then show "\<exists>added. frpcToml (snd (registerWebUIToFrpc config e w)) = Some (old @ added)"
    by (rule registerWebUIToFrpc_extends)
next
  assume "deleteFrpProxy e pn w = (None, w1)"
  from deleteFrpProxy_ok[OF this] show "\<exists>content. frpcToml w = Some content \<and>
         frpcToml w1 =
           Some (Join (map (nth (Split content))
                    (filter (\<lambda>i. \<not> inDeletedBlock pn (Split content) i)
                       [0..<length (Split content)])))"
    by (auto simp: deleteContent_def deleteLoop_kept_lines)
next
  assume "fst (deleteFrpProxy e' pn' w') = Some FileError"
  then show "snd (deleteFrpProxy e' pn' w') = w'"
    by (auto simp: deleteFrpProxy_def Let_def split: option.splits if_splits)
qed

theorem mutation_frame_witness:
  "frpcToml (fileWorld exampleRegistry) = Some exampleRegistry
   \<and> (\<exists>n. frpcToml (snd (appendToFrpc quietEnv bobRequest (fileWorld exampleRegistry))) =
            Some (exampleRegistry @ take n (proxyBlock (proxyName bobRequest) (ListenPort bobRequest)
                                   (AddRuleRequest.RemotePort bobRequest))))
   \<and> (\<exists>added. frpcToml (snd (registerWebUIToFrpc defaultConfig quietEnv
               (fileWorld exampleRegistry))) = Some (exampleRegistry @ added))
   \<and> deleteFrpProxy quietEnv ''web'' (fileWorld exampleRegistry) =
        (None, afterDelete ''web'' exampleRegistry)
   \<and> frpcToml (afterDelete ''web'' exampleRegistry) =
        Some (Join (map (nth (Split exampleRegistry))
                    (filter (\<lambda>i. \<not> inDeletedBlock ''web'' (Split exampleRegistry) i)
                       [0..<length (Split exampleRegistry)])))
   \<and> frpcToml (afterDelete ''web'' exampleRegistry) =
        Some (''[common]'' @ [NL] @ proxyBlock ''web-2'' ''81'' ''8081''
                @ proxyBlock ''my-web'' ''82'' ''8082'')
   \<and> fst (deleteFrpProxy quietEnv ''web'' noFileWorld) = Some FileError
   \<and> snd (deleteFrpProxy quietEnv ''web'' noFileWorld) = noFileWorld"
proof -
  have h1: "frpcToml (fileWorld exampleRegistry) = Some exampleRegistry"
    by (simp add: fileWorld_def)
  have h2: "deleteFrpProxy quietEnv ''web'' (fileWorld exampleRegistry) =
        (None, afterDelete ''web'' exampleRegistry)"
    by (rule example_delete_run)
  have h3: "fst (deleteFrpProxy quietEnv ''web'' noFileWorld) = Some FileError"
    by (simp add: deleteFrpProxy_def noFileWorld_def)
  note t = mutation_frame[where w = "fileWorld exampleRegistry" and old = exampleRegistry
      and e = quietEnv and req = bobRequest and pn = "''web''" and config = defaultConfig
      and ?w1.0 = "afterDelete ''web'' exampleRegistry"
      and e' = quietEnv and pn' = "''web''" and w' = noFileWorld]
  from t h1 h2 h3 show ?thesis
    by (auto simp: example_delete_web afterDelete_def)
qed

text \<open>
  Claim C1 as stated fails for a deletion whose write fails: \<^verbatim>\<open>os.WriteFile\<close> truncates the
  file before it writes. On \<open>fullDiskEnv\<close>, deleting \<^verbatim>\<open>ssh\<close>, a name no block of the example
  registry has, so that the content to write is the old content, returns the error of
  the write and leaves the file empty: every block is lost, and none was under deletion.
\<close>

theorem mutation_frame_counterexample:
  "deleteContent ''ssh'' exampleRegistry = exampleRegistry
   \<and> deleteFrpProxy fullDiskEnv ''ssh'' (fileWorld exampleRegistry) =
        (Some ShortWrite,
         \<lparr>frpcToml = Some [], writable = True, events = [FileWrite exampleRegistry]\<rparr>)
   \<and> exampleRegistry \<noteq> []"
proof -
  have c: "deleteContent ''ssh'' exampleRegistry = exampleRegistry"
    by (rule deleteContent_no_named) (rule example_no_ssh)
  have n: "exampleRegistry \<noteq> []"
    by (simp add: exampleRegistry_def)
  then have r: "deleteFrpProxy fullDiskEnv ''ssh'' (fileWorld exampleRegistry) =
        (Some ShortWrite,
         \<lparr>frpcToml = Some [], writable = True, events = [FileWrite exampleRegistry]\<rparr>)"
    by (simp add: deleteFrpProxy_def fullDiskEnv_def fileWorld_def Let_def c)
  from c r n show ?thesis by blast
qed



text \<open>
  Claim C10. One deletion removes every block named \<open>pn\<close>, not only the first one:
  after a deletion that returns no error, no marker of the file is followed by a name
  line with the value \<open>pn\<close>.
\<close>

theorem delete_removes_every_named_block:
  "deleteFrpProxy e pn w = (None, w1) \<longrightarrow>
     (\<exists>new. frpcToml w1 = Some new \<and> \<not> hasNamedBlock pn (Split new))"
  using deleteFrpProxy_ok[of e pn w w1] by (auto simp: deleteContent_clean)

theorem delete_removes_every_named_block_witness:
  "hasNamedBlock ''web'' (Split exampleRegistry)
   \<and> deleteFrpProxy quietEnv ''web'' (fileWorld exampleRegistry) =
        (None, afterDelete ''web'' exampleRegistry)
   \<and> (\<exists>new. frpcToml (afterDelete ''web'' exampleRegistry) = Some new
          \<and> \<not> hasNamedBlock ''web'' (Split new))"
  using delete_removes_every_named_block[where e = quietEnv and pn = "''web''"
      and w = "fileWorld exampleRegistry" and ?w1.0 = "afterDelete ''web'' exampleRegistry"]
    example_has_web example_delete_run[of "''web''" exampleRegistry]
  by blast

section \<open>The supervisor and the add-rule handler\<close>

text \<open>
  The locator only runs its two queries and \<^verbatim>\<open>os.FindProcess\<close>; stopping adds at most
  the termination command, and starting at most the opening of the log and one launch.
\<close>


lemma exec_events: "events (snd (exec e args w)) = events w @ [Exec args]"
  by (simp add: exec_def)

lemma exec_frpcToml: "frpcToml (snd (exec e args w)) = frpcToml w"
  by (simp add: exec_def)

lemma getFrpcProcess_events:
  "\<exists>evs. events (snd (getFrpcProcess e w)) = events w @ evs \<and> list_all lookupEvent evs"
  by (auto simp: getFrpcProcess_def exec_def Let_def lookupEvent_def split: option.splits)

lemma getFrpcProcess_frpcToml: "frpcToml (snd (getFrpcProcess e w)) = frpcToml w"
  by (auto simp: getFrpcProcess_def exec_def Let_def split: option.splits)

lemma getFrpcProcess_nonwindows: "\<not> windows e \<Longrightarrow> getFrpcProcess e w = (Inr None, w)"
  by (simp add: getFrpcProcess_def)

lemma lookupEvent_not_taskkill: "lookupEvent ev \<Longrightarrow> ev \<noteq> Exec taskkillCmd"
  by (auto simp: lookupEvent_def tasklistCmd_def wmicCmd_def taskkillCmd_def)

lemma lookupEvent_not_start: "lookupEvent ev \<Longrightarrow> \<not> isStart ev"
  by (auto simp: lookupEvent_def)

lemma stopFrpc_not_running:
  assumes "fst (getFrpcProcess e w) = Inr None"
  shows "stopFrpc e w = (None, snd (getFrpcProcess e w))"
proof (cases "windows e")
  case True
  with assms show ?thesis
    by (cases "getFrpcProcess e w") (simp add: stopFrpc_def)
next
  case False
  then show ?thesis by (simp add: stopFrpc_def getFrpcProcess_nonwindows)
qed

lemma startFrpc_running:
  assumes "fst (getFrpcProcess e w) = Inr (Some p)"
  shows "startFrpc config e w = (Some AlreadyRunning, snd (getFrpcProcess e w))"
proof (cases "windows e")
  case True
  with assms show ?thesis
    by (cases "getFrpcProcess e w") (simp add: startFrpc_def)
next
  case False
  with assms show ?thesis by (simp add: getFrpcProcess_nonwindows)
qed

lemma newEvents_append: "events w' = events w @ evs \<Longrightarrow> newEvents w w' = evs"
  by (simp add: newEvents_def)

lemma stopFrpc_events:
  "\<exists>evs. events (snd (stopFrpc e w)) = events w @ evs \<and> \<not> list_ex isStart evs"
proof -
  obtain evs where g: "events (snd (getFrpcProcess e w)) = events w @ evs" "list_all lookupEvent evs"
    using getFrpcProcess_events by blast
  then have ns: "\<not> list_ex isStart evs"
    by (auto simp: list_ex_iff list_all_iff dest: lookupEvent_not_start)
  show ?thesis
  proof (cases "getFrpcProcess e w")
    case (Pair r w1)
    with g ns show ?thesis
      by (auto simp: stopFrpc_def exec_def split: sum.splits option.splits)
  qed
qed

lemma startFrpc_events:
  "\<exists>evs. events (snd (startFrpc config e w)) = events w @ evs \<and> length (filter isStart evs) \<le> 1"
proof -
  obtain evs where g: "events (snd (getFrpcProcess e w)) = events w @ evs" "list_all lookupEvent evs"
    using getFrpcProcess_events by blast
  then have ns: "filter isStart evs = []"
    by (auto simp: filter_empty_conv list_all_iff dest: lookupEvent_not_start)
  show ?thesis
  proof (cases "getFrpcProcess e w")
    case (Pair r w1)
    with g ns show ?thesis
      by (auto simp: startFrpc_def Let_def split: sum.splits option.splits)
  qed
qed

lemma restartFrpc_start:
  "\<exists>w'. restartFrpc config e w = startFrpc config e w'
        \<and> frpcToml w' = frpcToml (snd (stopFrpc e w))
        \<and> events w' = events (snd (stopFrpc e w)) @ stopLog (fst (stopFrpc e w))
                          @ (if windows e then [Exec timeoutCmd] else [])"
  by (cases "stopFrpc e w")
     (auto simp: restartFrpc_def exec_def stopLog_def split: option.splits)


lemmas command_eval = tasklistCmd_def wmicCmd_def taskkillCmd_def timeoutCmd_def netshAddCmd_def

lemmas locator_eval =
  getFrpcProcess_def exec_def command_eval Let_def TrimSpace_def unicodeSpaces_def
  stripLeading.simps Sscanf_d_def digitVal_def reDigit_def fileWorld_def

lemma quiet_lookup:
  "getFrpcProcess quietEnv (fileWorld []) =
     (Inr None, \<lparr>frpcToml = Some [], writable = True, events = [Exec tasklistCmd]\<rparr>)"
  by (simp add: quietEnv_def locator_eval)

lemma stuck_lookup:
  "getFrpcProcess stuckEnv w =
     (Inr (Some 1234), w\<lparr>events := events w @ [Exec tasklistCmd, Exec wmicCmd, FindProcess 1234]\<rparr>)"
  by (simp add: stuckEnv_def locator_eval)

lemma stuck_stop:
  "fst (stopFrpc stuckEnv (fileWorld [])) = Some (StopFailed CmdError)"
  by (simp add: stopFrpc_def stuck_lookup) (simp add: stuckEnv_def exec_def command_eval)

lemma garbage_lookup:
  "fst (getFrpcProcess (garbageEnv ok) (fileWorld [])) =
     (if ok then Inr (Some 0) else Inl FindProcessError)"
  by (simp add: garbageEnv_def locator_eval)


subsection \<open>The claims about the supervisor, the locator and the handler\<close>

text \<open>
  Claim C4. When the locator reports no live process, \<^verbatim>\<open>stopFrpc\<close> returns no error and
  does not run the termination command. When it reports a live process, \<^verbatim>\<open>startFrpc\<close>
  returns the error \<open>AlreadyRunning\<close> and launches nothing. \<^verbatim>\<open>restartFrpc\<close> returns what
  \<^verbatim>\<open>startFrpc\<close> returns in the world after the stop, the warning logged when the stop
  failed and the settle delay; it launches the client at most once.
\<close>

theorem supervisor_state_machine:
  "(fst (getFrpcProcess e w) = Inr None \<longrightarrow>
      fst (stopFrpc e w) = None \<and> Exec taskkillCmd \<notin> set (newEvents w (snd (stopFrpc e w))))
   \<and> (fst (getFrpcProcess e w) = Inr (Some p) \<longrightarrow>
      fst (startFrpc config e w) = Some AlreadyRunning
      \<and> \<not> list_ex isStart (newEvents w (snd (startFrpc config e w))))
   \<and> (\<exists>w'. restartFrpc config e w = startFrpc config e w'
         \<and> frpcToml w' = frpcToml w
         \<and> events w' = events (snd (stopFrpc e w)) @ stopLog (fst (stopFrpc e w))
                          @ (if windows e then [Exec timeoutCmd] else []))
   \<and> length (filter isStart (newEvents w (snd (restartFrpc config e w)))) \<le> 1"
proof (intro conjI impI)
  obtain evs where g: "events (snd (getFrpcProcess e w)) = events w @ evs"
      and l: "list_all lookupEvent evs"
    using getFrpcProcess_events by blast
  {
    assume a: "fst (getFrpcProcess e w) = Inr None"
    from stopFrpc_not_running[OF a] show "fst (stopFrpc e w) = None" by simp
    from stopFrpc_not_running[OF a] g have "newEvents w (snd (stopFrpc e w)) = evs"
      by (simp add: newEvents_append)
    with l show "Exec taskkillCmd \<notin> set (newEvents w (snd (stopFrpc e w)))"
      by (auto simp: list_all_iff dest: lookupEvent_not_taskkill)
  }
  {
    assume a: "fst (getFrpcProcess e w) = Inr (Some p)"
    from startFrpc_running[OF a] show "fst (startFrpc config e w) = Some AlreadyRunning" by simp
    from startFrpc_running[OF a] g have "newEvents w (snd (startFrpc config e w)) = evs"
      by (simp add: newEvents_append)
    with l show "\<not> list_ex isStart (newEvents w (snd (startFrpc config e w)))"
      by (auto simp: list_all_iff list_ex_iff dest: lookupEvent_not_start)
  }
  obtain w' where r: "restartFrpc config e w = startFrpc config e w'"
      and f: "frpcToml w' = frpcToml (snd (stopFrpc e w))"
      and ev: "events w' = events (snd (stopFrpc e w)) @ stopLog (fst (stopFrpc e w))
                          @ (if windows e then [Exec timeoutCmd] else [])"
    using restartFrpc_start by blast
  have ft: "frpcToml (snd (stopFrpc e w)) = frpcToml w"
    using getFrpcProcess_frpcToml[of e w]
    by (cases "getFrpcProcess e w")
       (auto simp: stopFrpc_def exec_def split: sum.splits option.splits)
  from r f ev ft show "\<exists>w'. restartFrpc config e w = startFrpc config e w'
         \<and> frpcToml w' = frpcToml w
         \<and> events w' = events (snd (stopFrpc e w)) @ stopLog (fst (stopFrpc e w))
                          @ (if windows e then [Exec timeoutCmd] else [])"
    by auto
  obtain evs1 where s1: "events (snd (stopFrpc e w)) = events w @ evs1"
      and n1: "\<not> list_ex isStart evs1"
    using stopFrpc_events by blast
  obtain evs2 where s2: "events (snd (startFrpc config e w')) = events w' @ evs2"
      and n2: "length (filter isStart evs2) \<le> 1"
    using startFrpc_events by blast
  have mid: "filter isStart (stopLog (fst (stopFrpc e w))
                          @ (if windows e then [Exec timeoutCmd] else [])) = []"
    by (auto simp: stopLog_def split: option.splits)
  from n1 have "filter isStart evs1 = []"
    by (auto simp: filter_empty_conv list_ex_iff)
  with r ev s1 s2 n2 mid
  show "length (filter isStart (newEvents w (snd (restartFrpc config e w)))) \<le> 1"
    by (simp add: newEvents_def)
qed

theorem supervisor_state_machine_witness:
  "(fst (getFrpcProcess quietEnv (fileWorld [])) = Inr None
      \<and> fst (stopFrpc quietEnv (fileWorld [])) = None
      \<and> Exec taskkillCmd \<notin> set (newEvents (fileWorld []) (snd (stopFrpc quietEnv (fileWorld [])))))
   \<and> (fst (getFrpcProcess stuckEnv (fileWorld [])) = Inr (Some 1234)
      \<and> fst (startFrpc defaultConfig stuckEnv (fileWorld [])) = Some AlreadyRunning
      \<and> \<not> list_ex isStart (newEvents (fileWorld []) (snd (startFrpc defaultConfig stuckEnv (fileWorld [])))))
   \<and> (fst (stopFrpc stuckEnv (fileWorld [])) = Some (StopFailed CmdError)
      \<and> (\<exists>w'. restartFrpc defaultConfig stuckEnv (fileWorld []) = startFrpc defaultConfig stuckEnv w'
            \<and> events w' = events (snd (stopFrpc stuckEnv (fileWorld [])))
                   @ [LogStopWarning (StopFailed CmdError), Exec timeoutCmd]))"
proof -
  have a: "fst (getFrpcProcess quietEnv (fileWorld [])) = Inr None"
    by (simp add: quiet_lookup)
  have b: "fst (getFrpcProcess stuckEnv (fileWorld [])) = Inr (Some 1234)"
    by (simp add: stuck_lookup)
  have c: "windows stuckEnv" by (simp add: stuckEnv_def)
  note t1 = supervisor_state_machine[where e = quietEnv and w = "fileWorld []"]
  note t2 = supervisor_state_machine[where e = stuckEnv and w = "fileWorld []"
      and config = defaultConfig and p = 1234]
  from t1 a have 1: "fst (stopFrpc quietEnv (fileWorld [])) = None
      \<and> Exec taskkillCmd \<notin> set (newEvents (fileWorld []) (snd (stopFrpc quietEnv (fileWorld []))))"
    by blast
  from t2 b have 2: "fst (startFrpc defaultConfig stuckEnv (fileWorld [])) = Some AlreadyRunning
      \<and> \<not> list_ex isStart (newEvents (fileWorld []) (snd (startFrpc defaultConfig stuckEnv (fileWorld []))))"
    by blast
  from t2 c stuck_stop have 3: "\<exists>w'. restartFrpc defaultConfig stuckEnv (fileWorld []) =
              startFrpc defaultConfig stuckEnv w'
            \<and> events w' = events (snd (stopFrpc stuckEnv (fileWorld [])))
                   @ [LogStopWarning (StopFailed CmdError), Exec timeoutCmd]"
    by (auto simp: stopLog_def)
  from a b 1 2 3 stuck_stop show ?thesis by blast
qed

text \<open>
  Claim C7, as amended. When the probe does not find the image, \<^verbatim>\<open>getFrpcProcess\<close>
  returns no process and runs nothing but the probe. When the probe finds it and the
  output of the process-table query has fewer than two lines or a blank second line, the
  result is no process, and not an error. Off Windows the result is always no process.
\<close>

theorem locator_short_circuit:
  "(windows e \<and> cmdOutput e (events w) tasklistCmd = Some out \<and> \<not> Contains out ''frpc.exe'' \<longrightarrow>
      getFrpcProcess e w = (Inr None, w\<lparr>events := events w @ [Exec tasklistCmd]\<rparr>))
   \<and> (windows e \<and> cmdOutput e (events w) tasklistCmd = Some out \<and> Contains out ''frpc.exe''
       \<and> cmdOutput e (events w @ [Exec tasklistCmd]) wmicCmd = Some out2
       \<and> (length (Split out2) < 2 \<or> TrimSpace (Split out2 ! 1) = []) \<longrightarrow>
      fst (getFrpcProcess e w) = Inr None)
   \<and> (\<not> windows e \<longrightarrow> getFrpcProcess e w = (Inr None, w))"
  by (auto simp: getFrpcProcess_def exec_def Let_def)

theorem locator_short_circuit_witness:
  "(windows quietEnv \<and> cmdOutput quietEnv (events (fileWorld [])) tasklistCmd = Some []
      \<and> \<not> Contains [] ''frpc.exe''
      \<and> getFrpcProcess quietEnv (fileWorld []) =
          (Inr None, (fileWorld [])\<lparr>events := events (fileWorld []) @ [Exec tasklistCmd]\<rparr>))
   \<and> (windows exitedEnv
      \<and> cmdOutput exitedEnv (events (fileWorld [])) tasklistCmd = Some ''\"frpc.exe\",\"1234\"''
      \<and> Contains ''\"frpc.exe\",\"1234\"'' ''frpc.exe''
      \<and> cmdOutput exitedEnv (events (fileWorld []) @ [Exec tasklistCmd]) wmicCmd =
           Some (''ProcessId'' @ [CR, NL, CR, NL])
      \<and> TrimSpace (Split (''ProcessId'' @ [CR, NL, CR, NL]) ! 1) = []
      \<and> fst (getFrpcProcess exitedEnv (fileWorld [])) = Inr None)"
proof -
  have a: "windows quietEnv \<and> cmdOutput quietEnv (events (fileWorld [])) tasklistCmd = Some []
      \<and> \<not> Contains [] ''frpc.exe''"
    by (simp add: quietEnv_def)
  have b: "windows exitedEnv
      \<and> cmdOutput exitedEnv (events (fileWorld [])) tasklistCmd = Some ''\"frpc.exe\",\"1234\"''
      \<and> Contains ''\"frpc.exe\",\"1234\"'' ''frpc.exe''
      \<and> cmdOutput exitedEnv (events (fileWorld []) @ [Exec tasklistCmd]) wmicCmd =
           Some (''ProcessId'' @ [CR, NL, CR, NL])"
    by (simp add: exitedEnv_def command_eval)
  have c: "TrimSpace (Split (''ProcessId'' @ [CR, NL, CR, NL]) ! 1) = []"
    by (simp add: TrimSpace_def unicodeSpaces_def stripLeading.simps)
  from locator_short_circuit[where e = quietEnv and w = "fileWorld []" and out = "[]"] a
  have 1: "getFrpcProcess quietEnv (fileWorld []) =
          (Inr None, (fileWorld [])\<lparr>events := events (fileWorld []) @ [Exec tasklistCmd]\<rparr>)"
    by blast
  from locator_short_circuit[where e = exitedEnv and w = "fileWorld []"
        and out = "''\"frpc.exe\",\"1234\"''" and ?out2.0 = "''ProcessId'' @ [CR, NL, CR, NL]"] b c
  have 2: "fst (getFrpcProcess exitedEnv (fileWorld [])) = Inr None"
    by blast
  from a b c 1 2 show ?thesis by blast
qed

text \<open>
  Claim C7 as stated fails: with the image found and the second line \<^verbatim>\<open>abc\<close> of the
  process-table query, the scan of the number fails, its error is dropped, and the result
  is the error of \<^verbatim>\<open>os.FindProcess(0)\<close>, or the process 0 when that call succeeds, and not
  "no process".
\<close>

theorem locator_unparsable_pid_counterexample:
  "windows (garbageEnv False)
   \<and> cmdOutput (garbageEnv False) [] tasklistCmd = Some ''\"frpc.exe\",\"1234\"''
   \<and> Contains ''\"frpc.exe\",\"1234\"'' ''frpc.exe''
   \<and> cmdOutput (garbageEnv False) [Exec tasklistCmd] wmicCmd = Some (''ProcessId'' @ [NL] @ ''abc'' @ [NL])
   \<and> fst (getFrpcProcess (garbageEnv False) (fileWorld [])) = Inl FindProcessError
   \<and> fst (getFrpcProcess (garbageEnv True) (fileWorld [])) = Inr (Some 0)"
  by (simp add: garbage_lookup) (simp add: garbageEnv_def command_eval)

text \<open>
  Claim C9. When the rule-add step of the operating system fails, \<^verbatim>\<open>handleAddRule\<close>
  answers with that error, the registry file is as before, and the only event is the
  \<^verbatim>\<open>netsh\<close> command: no append, no restart. When the append fails, the events are the
  \<^verbatim>\<open>netsh\<close> command and at most the failed write: no restart. When the handler succeeds,
  its events start with the \<^verbatim>\<open>netsh\<close> command and the write to the registry, in that
  order, before those of the restart.
\<close>

theorem add_rule_stops_at_netsh_failure:
  "(fst (addNetshRule e (ListenPort req) (ConnectAddr req) (ConnectPort req) w) = Some err \<longrightarrow>
      fst (handleAddRule config e (Some req) w) = NetshFailed err
      \<and> frpcToml (snd (handleAddRule config e (Some req) w)) = frpcToml w
      \<and> events (snd (handleAddRule config e (Some req) w)) =
          events w @ [Exec (netshAddCmd (ListenPort req) (ConnectAddr req) (ConnectPort req))])
   \<and> (fst (handleAddRule config e (Some req) w) = UpdateTomlFailed err \<longrightarrow>
      list_all (\<lambda>ev. ev = Exec (netshAddCmd (ListenPort req) (ConnectAddr req) (ConnectPort req))
                  \<or> ev = FileWrite (proxyBlock (proxyName req) (ListenPort req)
                                    (AddRuleRequest.RemotePort req)))
        (newEvents w (snd (handleAddRule config e (Some req) w))))
   \<and> (windows e \<and> fst (handleAddRule config e (Some req) w) = StatusOK \<longrightarrow>
      (\<exists>rest. events (snd (handleAddRule config e (Some req) w)) =
          events w @ Exec (netshAddCmd (ListenPort req) (ConnectAddr req) (ConnectPort req))
            # FileWrite (proxyBlock (proxyName req) (ListenPort req) (AddRuleRequest.RemotePort req))
            # rest))"
proof (intro conjI impI)
  assume a: "fst (addNetshRule e (ListenPort req) (ConnectAddr req) (ConnectPort req) w) = Some err"
  then have w: "windows e" by (auto simp: addNetshRule_def split: if_splits)
  with a have r: "addNetshRule e (ListenPort req) (ConnectAddr req) (ConnectPort req) w =
      (Some err, w\<lparr>events := events w @ [Exec (netshAddCmd (ListenPort req) (ConnectAddr req) (ConnectPort req))]\<rparr>)"
    by (auto simp: addNetshRule_def exec_def split: option.splits)
  then show "fst (handleAddRule config e (Some req) w) = NetshFailed err"
    and "frpcToml (snd (handleAddRule config e (Some req) w)) = frpcToml w"
    and "events (snd (handleAddRule config e (Some req) w)) =
          events w @ [Exec (netshAddCmd (ListenPort req) (ConnectAddr req) (ConnectPort req))]"
    by (simp_all add: handleAddRule_def)
next
  assume "fst (handleAddRule config e (Some req) w) = UpdateTomlFailed err"
  then show "list_all (\<lambda>ev. ev = Exec (netshAddCmd (ListenPort req) (ConnectAddr req) (ConnectPort req))
                  \<or> ev = FileWrite (proxyBlock (proxyName req) (ListenPort req)
                                    (AddRuleRequest.RemotePort req)))
        (newEvents w (snd (handleAddRule config e (Some req) w)))"
    by (auto simp: handleAddRule_def addNetshRule_def appendToFrpc_def appendString_def exec_def
        newEvents_def Let_def split: option.splits if_splits prod.splits)
next
  assume a: "windows e \<and> fst (handleAddRule config e (Some req) w) = StatusOK"
  let ?w1 = "w\<lparr>events := events w @ [Exec (netshAddCmd (ListenPort req) (ConnectAddr req) (ConnectPort req))]\<rparr>"
  let ?s = "proxyBlock (proxyName req) (ListenPort req) (AddRuleRequest.RemotePort req)"
  from a have n: "addNetshRule e (ListenPort req) (ConnectAddr req) (ConnectPort req) w = (None, ?w1)"
    by (auto simp: handleAddRule_def addNetshRule_def exec_def split: option.splits prod.splits)
  with a obtain w2 where ap: "appendToFrpc e req ?w1 = (None, w2)"
    by (auto simp: handleAddRule_def split: option.splits prod.splits)
  then have e2: "events w2 = events ?w1 @ [FileWrite ?s]"
    by (auto simp: appendToFrpc_def appendString_def Let_def split: option.splits if_splits)
  from n ap have h: "snd (handleAddRule config e (Some req) w) = snd (restartFrpc config e w2)"
    by (simp add: handleAddRule_def)
  obtain w' where r: "restartFrpc config e w2 = startFrpc config e w'"
      and ev: "events w' = events (snd (stopFrpc e w2)) @ stopLog (fst (stopFrpc e w2))
                          @ (if windows e then [Exec timeoutCmd] else [])"
    using restartFrpc_start by blast
  obtain evs1 where s1: "events (snd (stopFrpc e w2)) = events w2 @ evs1"
    using stopFrpc_events by blast
  obtain evs2 where s2: "events (snd (startFrpc config e w')) = events w' @ evs2"
    using startFrpc_events by blast
  from h r ev s1 s2 e2
  show "\<exists>rest. events (snd (handleAddRule config e (Some req) w)) =
          events w @ Exec (netshAddCmd (ListenPort req) (ConnectAddr req) (ConnectPort req))
            # FileWrite ?s # rest"
    by simp
qed

theorem add_rule_stops_at_netsh_failure_witness:
  "fst (addNetshRule netshFailsEnv (ListenPort bobRequest) (ConnectAddr bobRequest)
          (ConnectPort bobRequest) (fileWorld exampleRegistry)) = Some CmdError
   \<and> fst (handleAddRule defaultConfig netshFailsEnv (Some bobRequest) (fileWorld exampleRegistry))
        = NetshFailed CmdError
   \<and> frpcToml (snd (handleAddRule defaultConfig netshFailsEnv (Some bobRequest)
        (fileWorld exampleRegistry))) = Some exampleRegistry
   \<and> events (snd (handleAddRule defaultConfig netshFailsEnv (Some bobRequest)
        (fileWorld exampleRegistry))) = [Exec (netshAddCmd ''9000'' ''10.0.0.9'' ''443'')]
   \<and> windows quietEnv
   \<and> fst (handleAddRule defaultConfig quietEnv (Some bobRequest) (fileWorld exampleRegistry)) = StatusOK
   \<and> (\<exists>rest. events (snd (handleAddRule defaultConfig quietEnv (Some bobRequest)
          (fileWorld exampleRegistry))) =
        Exec (netshAddCmd ''9000'' ''10.0.0.9'' ''443'')
          # FileWrite (proxyBlock ''bob-manager-10.0.0.9-443'' ''9000'' ''7000'') # rest)
   \<and> fst (handleAddRule defaultConfig quietEnv (Some bobRequest) noFileWorld) =
        UpdateTomlFailed FileError
   \<and> newEvents noFileWorld (snd (handleAddRule defaultConfig quietEnv (Some bobRequest) noFileWorld)) =
        [Exec (netshAddCmd ''9000'' ''10.0.0.9'' ''443'')]"
proof -
  have c: "fst (handleAddRule defaultConfig quietEnv (Some bobRequest) noFileWorld) =
        UpdateTomlFailed FileError"
    by (simp add: handleAddRule_def addNetshRule_def appendToFrpc_def appendString_def
          quietEnv_def exec_def noFileWorld_def)
  have d: "newEvents noFileWorld (snd (handleAddRule defaultConfig quietEnv (Some bobRequest) noFileWorld)) =
        [Exec (netshAddCmd ''9000'' ''10.0.0.9'' ''443'')]"
    using add_rule_stops_at_netsh_failure[where e = quietEnv and req = bobRequest
      and w = noFileWorld and config = defaultConfig and err = FileError] c
    by (simp add: handleAddRule_def addNetshRule_def appendToFrpc_def appendString_def
          quietEnv_def exec_def noFileWorld_def newEvents_def bobRequest_def)
  have a: "fst (addNetshRule netshFailsEnv (ListenPort bobRequest) (ConnectAddr bobRequest)
          (ConnectPort bobRequest) (fileWorld exampleRegistry)) = Some CmdError"
    by (simp add: addNetshRule_def netshFailsEnv_def exec_def)
  have b: "windows quietEnv
      \<and> fst (handleAddRule defaultConfig quietEnv (Some bobRequest) (fileWorld exampleRegistry)) = StatusOK"
    by (simp add: handleAddRule_def addNetshRule_def appendToFrpc_def appendString_def
          quietEnv_def exec_def fileWorld_def Let_def)
  from add_rule_stops_at_netsh_failure[where e = netshFailsEnv and req = bobRequest
      and w = "fileWorld exampleRegistry" and err = CmdError and config = defaultConfig] a
  have 1: "fst (handleAddRule defaultConfig netshFailsEnv (Some bobRequest) (fileWorld exampleRegistry))
        = NetshFailed CmdError
   \<and> frpcToml (snd (handleAddRule defaultConfig netshFailsEnv (Some bobRequest)
        (fileWorld exampleRegistry))) = Some exampleRegistry
   \<and> events (snd (handleAddRule defaultConfig netshFailsEnv (Some bobRequest)
        (fileWorld exampleRegistry))) = [Exec (netshAddCmd ''9000'' ''10.0.0.9'' ''443'')]"
    by (simp add: fileWorld_def bobRequest_def)
  from add_rule_stops_at_netsh_failure[where e = quietEnv and req = bobRequest
      and w = "fileWorld exampleRegistry" and config = defaultConfig] b
  have 2: "\<exists>rest. events (snd (handleAddRule defaultConfig quietEnv (Some bobRequest)
          (fileWorld exampleRegistry))) =
        Exec (netshAddCmd ''9000'' ''10.0.0.9'' ''443'')
          # FileWrite (proxyBlock ''bob-manager-10.0.0.9-443'' ''9000'' ''7000'') # rest"
    by (simp add: fileWorld_def bobRequest_def proxyName_def)
  from a b c d 1 2 show ?thesis by blast
qed

section \<open>Parsing the registry file\<close>

text \<open>
  The loop of the parser is a left fold of \<^const>\<open>parseStep\<close> over the tokens of the scanner.
  On a file whose lines fit the buffer the tokens are the lines, each without one
  trailing carriage return; the six lines of a well-formed block take the parser from any
  state to the state with that block open, so that parsing after an append gives the old
  records and the new one.
\<close>


lemma parseLoop_foldl:
  "parseLoop proxies current ls =
     (case foldl parseStep (proxies, current) ls of (ps, cur) \<Rightarrow> flush ps cur)"
  by (induction ls arbitrary: proxies current)
     (auto simp: parseStep_def Let_def split: option.splits)

lemma scanTokens_append:
  "shortLines a \<Longrightarrow> scanTokens (a @ b) = map dropCR a @ scanTokens b"
  by (induction a) (auto simp: shortLines_def)

lemma scanTokens_short: "shortLines a \<Longrightarrow> scanTokens a = map dropCR a"
  using scanTokens_append[of a "[]"] by simp

lemma shortLines_butlast: "shortLines a \<Longrightarrow> shortLines (butlast a)"
  by (auto simp: shortLines_def list_all_iff dest: in_set_butlastD)

lemma TrimSpace_Nil: "TrimSpace [] = []"
  by (simp add: TrimSpace_def stripLeading.simps unicodeSpaces_def)

lemma afterKey_Nil: "afterKey (k # key) [] = None"
  by (simp add: afterKey_def)

lemma setField_Nil: "setField c [] = c"
  by (simp add: setField_def reName_def reType_def reLocalIP_def reLocalPort_def
      reRemotePort_def matchQuoted_def matchNumber_def afterKey_Nil)

lemma parseStep_empty: "parseStep st [] = st"
  by (cases st) (auto simp: parseStep_def TrimSpace_Nil marker_def setField_Nil split: option.splits)

lemma dropCR_Nil: "dropCR [] = []"
  by (simp add: dropCR_def)

text \<open>The tokens of a file whose lines all fit the buffer.\<close>

lemma scanLines_short:
  assumes "shortLines (Split content)"
  shows "scanLines content =
     map dropCR (if last (Split content) = [] then butlast (Split content) else Split content)"
  using assms by (auto simp: scanLines_def Let_def scanTokens_short shortLines_butlast)

lemma foldl_parseStep_scanLines:
  assumes "shortLines (Split content)"
  shows "foldl parseStep st (scanLines content) = foldl parseStep st (map dropCR (Split content))"
proof (cases "last (Split content) = []")
  case True
  have "Split content = butlast (Split content) @ [[]]"
    using True append_butlast_last_id[of "Split content"] by simp
  then have "map dropCR (Split content) = map dropCR (butlast (Split content)) @ [[]]"
    by (metis dropCR_Nil list.simps(8,9) map_append)
  with True assms show ?thesis
    by (simp add: scanLines_short parseStep_empty)
next
  case False
  with assms show ?thesis by (simp add: scanLines_short)
qed


lemma plain_chars:
  "plain (CHR ''n'')" "plain (CHR ''t'')" "plain (CHR ''l'')" "plain (CHR ''r'')"
  "plain (CHR ''['')" "plain (CHR '']'')" "plain DQ"
  by (simp_all add: plain_def unicodeSpaces_def)

lemma plain_not_CR: "plain c \<Longrightarrow> c \<noteq> CR"
  by (auto simp: plain_def unicodeSpaces_def)

lemma plain_not_reSpace: "plain c \<Longrightarrow> \<not> reSpace c"
  by (auto simp: plain_def unicodeSpaces_def reSpace_def)

lemma dropCR_plain: "s \<noteq> [] \<Longrightarrow> plain (last s) \<Longrightarrow> dropCR s = s"
  by (auto simp: dropCR_def dest: plain_not_CR)

lemma Split_proxyBlock:
  assumes "NL \<notin> set n" "NL \<notin> set lp" "NL \<notin> set rp"
  shows "Split (old @ proxyBlock n lp rp) = Split old @ blockLines n lp rp @ [[]]"
proof -
  have "proxyBlock n lp rp =
      NL # (''[[proxies]]'' @ NL # ((''name = \"'' @ n @ ''\"'') @ NL # (''type = \"tcp\"'' @ NL #
        (''localIP = \"127.0.0.1\"'' @ NL # ((''localPort = '' @ lp) @ NL #
          ((''remotePort = '' @ rp) @ NL # []))))))"
    by (simp add: proxyBlock_def)
  then show ?thesis
    using assms
    by (simp only: Split_append_NL)
       (simp add: Split_noNL blockLines_def)
qed

lemma blockLines_tokens:
  assumes "wellFormedBlock n lp rp"
  shows "shortLines (blockLines n lp rp)" and "map dropCR (blockLines n lp rp) = blockLines n lp rp"
  using assms
  by (auto simp: wellFormedBlock_def shortLines_def blockLines_def MaxScanTokenSize_def
      dropCR_def dest: plain_not_CR)

lemma TrimSpace_marker: "TrimSpace ''[[proxies]]'' = ''[[proxies]]''"
  by (rule TrimSpace_id) (simp_all add: plain_chars)

lemma step_marker:
  "parseStep (ps, cur) ''[[proxies]]'' = (flush ps cur, Some emptyProxy)"
  by (simp add: parseStep_def TrimSpace_marker marker_def)

lemma step_name:
  assumes "NL \<notin> set n"
  shows "parseStep (ps, Some c) (''name = \"'' @ n @ ''\"'') = (ps, Some (c\<lparr>FrpProxy.Name := n\<rparr>))"
proof -
  have t: "TrimSpace (''name = \"'' @ n @ ''\"'') = ''name = \"'' @ n @ ''\"''"
    by (rule TrimSpace_id) (simp_all add: plain_chars)
  have a: "afterKey ''name'' (''name = \"'' @ n @ ''\"'') = Some (DQ # n @ [DQ])"
    by (simp add: afterKey_def reSpace_def)
  from assms have "takeWhile (\<lambda>x. x \<noteq> NL) (n @ [DQ]) = n @ [DQ]"
    by (auto simp: takeWhile_eq_all_conv)
  with a have "reName (''name = \"'' @ n @ ''\"'') = Some n"
    by (simp add: reName_def matchQuoted_def)
  then show ?thesis
    by (simp add: parseStep_def t[simplified] marker_def setField_def)
qed

lemma step_type:
  "parseStep (ps, Some c) ''type = \"tcp\"'' = (ps, Some (c\<lparr>FrpProxy.Type := ''tcp''\<rparr>))"
  by (simp add: parseStep_def TrimSpace_id plain_chars marker_def setField_def
      reName_def reType_def matchQuoted_def afterKey_def reSpace_def)

lemma step_localIP:
  "parseStep (ps, Some c) ''localIP = \"127.0.0.1\"'' = (ps, Some (c\<lparr>LocalIP := ''127.0.0.1''\<rparr>))"
  by (simp add: parseStep_def TrimSpace_id plain_chars marker_def setField_def
      reName_def reType_def reLocalIP_def matchQuoted_def afterKey_def reSpace_def)

lemma step_localPort:
  assumes "lp \<noteq> []" "plain (last lp)" "LocalPort c = []"
  shows "parseStep (ps, Some c) (''localPort = '' @ lp) =
     (ps, Some (c\<lparr>LocalPort := takeWhile reDigit (dropWhile reSpace lp)\<rparr>))"
proof -
  have t: "TrimSpace (''localPort = '' @ lp) = ''localPort = '' @ lp"
    using assms by (intro TrimSpace_id) (simp_all add: plain_chars)
  have a: "afterKey ''localPort'' (''localPort = '' @ lp) = Some (dropWhile reSpace lp)"
    by (simp add: afterKey_def reSpace_def)
  have n: "reName (''localPort = '' @ lp) = None" "reType (''localPort = '' @ lp) = None"
      "reLocalIP (''localPort = '' @ lp) = None" "reRemotePort (''localPort = '' @ lp) = None"
    by (simp_all add: reName_def reType_def reLocalIP_def reRemotePort_def matchQuoted_def
        matchNumber_def afterKey_def reSpace_def)
  have "setField c (''localPort = '' @ lp) =
      c\<lparr>LocalPort := takeWhile reDigit (dropWhile reSpace lp)\<rparr>"
    using assms(3) a[simplified]
    by (simp add: setField_def n[simplified] reLocalPort_def matchNumber_def Let_def)
  then show ?thesis
    by (simp add: parseStep_def t[simplified] marker_def)
qed

lemma step_remotePort:
  assumes "rp \<noteq> []" "plain (last rp)" "FrpProxy.RemotePort c = []"
  shows "parseStep (ps, Some c) (''remotePort = '' @ rp) =
     (ps, Some (c\<lparr>FrpProxy.RemotePort := takeWhile reDigit (dropWhile reSpace rp)\<rparr>))"
proof -
  have t: "TrimSpace (''remotePort = '' @ rp) = ''remotePort = '' @ rp"
    using assms by (intro TrimSpace_id) (simp_all add: plain_chars)
  have a: "afterKey ''remotePort'' (''remotePort = '' @ rp) = Some (dropWhile reSpace rp)"
    by (simp add: afterKey_def reSpace_def)
  have n: "reName (''remotePort = '' @ rp) = None" "reType (''remotePort = '' @ rp) = None"
      "reLocalIP (''remotePort = '' @ rp) = None" "reLocalPort (''remotePort = '' @ rp) = None"
    by (simp_all add: reName_def reType_def reLocalIP_def reLocalPort_def matchQuoted_def
        matchNumber_def afterKey_def reSpace_def)
  have "setField c (''remotePort = '' @ rp) =
      c\<lparr>FrpProxy.RemotePort := takeWhile reDigit (dropWhile reSpace rp)\<rparr>"
    using assms(3) a[simplified]
    by (simp add: setField_def n[simplified] reRemotePort_def matchNumber_def Let_def)
  then show ?thesis
    by (simp add: parseStep_def t[simplified] marker_def)
qed

lemma foldl_parseStep_block:
  assumes "wellFormedBlock n lp rp"
  shows "foldl parseStep (ps, cur) (blockLines n lp rp) = (flush ps cur, Some (blockProxy n lp rp))"
  using assms
  by (simp add: blockLines_def wellFormedBlock_def step_marker[simplified] step_name[simplified]
      step_type[simplified] step_localIP[simplified] step_localPort[simplified]
      step_remotePort[simplified] emptyProxy_def blockProxy_def)

lemma parse_append_block:
  assumes "shortLines (Split old)" "wellFormedBlock n lp rp"
  shows "parse (old @ proxyBlock n lp rp) = parse old @ [blockProxy n lp rp]"
proof -
  from assms(2) have nl: "NL \<notin> set n" "NL \<notin> set lp" "NL \<notin> set rp"
    by (simp_all add: wellFormedBlock_def)
  let ?new = "old @ proxyBlock n lp rp"
  have sp: "Split ?new = Split old @ blockLines n lp rp @ [[]]"
    by (rule Split_proxyBlock[OF nl])
  have sh: "shortLines (Split ?new)"
    using assms(1) blockLines_tokens(1)[OF assms(2)]
    by (simp add: sp shortLines_def MaxScanTokenSize_def)
  obtain ps cur where st: "foldl parseStep ([], None) (map dropCR (Split old)) = (ps, cur)"
    by (cases "foldl parseStep ([], None) (map dropCR (Split old))") auto
  have "foldl parseStep ([], None) (scanLines ?new) =
      foldl parseStep ([], None) (map dropCR (Split ?new))"
    by (rule foldl_parseStep_scanLines[OF sh])
  also have "\<dots> = (flush ps cur, Some (blockProxy n lp rp))"
    by (simp add: sp st blockLines_tokens(2)[OF assms(2)] foldl_parseStep_block[OF assms(2)]
        dropCR_Nil parseStep_empty)
  finally have new: "parse ?new = flush ps cur @ [blockProxy n lp rp]"
    by (simp add: parse_def parseLoop_foldl flush_def)
  have "foldl parseStep ([], None) (scanLines old) = (ps, cur)"
    using foldl_parseStep_scanLines[OF assms(1)] st by simp
  then have "parse old = flush ps cur"
    by (simp add: parse_def parseLoop_foldl)
  with new show ?thesis by simp
qed


lemma reDigit_plain: "reDigit c \<Longrightarrow> plain c"
  by (auto simp: reDigit_def plain_def unicodeSpaces_def)

lemma reDigit_not_NL: "reDigit c \<Longrightarrow> c \<noteq> NL"
  by (auto simp: reDigit_def)

lemma digits_field:
  assumes "list_all reDigit ds"
  shows "takeWhile reDigit (dropWhile reSpace ds) = ds"
proof -
  have "dropWhile reSpace ds = ds"
    using assms by (cases ds) (auto dest: reDigit_plain plain_not_reSpace)
  with assms show ?thesis
    by (simp add: takeWhile_eq_all_conv list_all_iff)
qed

lemma digits_wellFormed:
  assumes "ds \<noteq> []" "list_all reDigit ds"
  shows "NL \<notin> set ds" and "plain (last ds)"
proof -
  from assms have d: "\<forall>c\<in>set ds. reDigit c" by (simp add: list_all_iff)
  then show "NL \<notin> set ds" using reDigit_not_NL by blast
  from assms have "last ds \<in> set ds" by simp
  with d show "plain (last ds)" using reDigit_plain by blast
qed

lemma wellFormedRequest_block:
  assumes "wellFormedRequest req"
  shows "wellFormedBlock (proxyName req) (ListenPort req) (AddRuleRequest.RemotePort req)"
    and "blockProxy (proxyName req) (ListenPort req) (AddRuleRequest.RemotePort req) = requestProxy req"
  using assms
  by (auto simp: wellFormedRequest_def wellFormedBlock_def blockProxy_def requestProxy_def
      digits_field digits_wellFormed proxyName_def)

lemma appendString_ok:
  assumes "appendString e s w = (None, w')"
  shows "\<exists>old. frpcToml w = Some old \<and> frpcToml w' = Some (old @ s)"
  using assms
  by (auto simp: appendString_def Let_def split: option.splits if_splits)

lemma shortLines_append_block:
  assumes "shortLines (Split old)" "wellFormedBlock n lp rp"
  shows "shortLines (Split (old @ proxyBlock n lp rp))"
proof -
  from assms(2) have nl: "NL \<notin> set n" "NL \<notin> set lp" "NL \<notin> set rp"
    by (simp_all add: wellFormedBlock_def)
  show ?thesis
    using assms(1) blockLines_tokens(1)[OF assms(2)]
    by (simp add: Split_proxyBlock[OF nl] shortLines_def MaxScanTokenSize_def)
qed

lemma parse_Nil: "parse [] = []"
  by (simp add: parse_def scanLines_def flush_def)

lemma shortLines_Nil: "shortLines (Split [])"
  by (simp add: shortLines_def MaxScanTokenSize_def)

lemma appendAll_parse:
  assumes "appendAll e reqs w = (None, w')" "frpcToml w = Some old" "shortLines (Split old)"
    "list_all wellFormedRequest reqs"
  shows "\<exists>new. frpcToml w' = Some new \<and> shortLines (Split new)
           \<and> parse new = parse old @ map requestProxy reqs"
  using assms
proof (induction reqs arbitrary: w old)
  case Nil
  then show ?case by simp
next
  case (Cons req reqs)
  from Cons.prems(1) obtain w1 where a: "appendToFrpc e req w = (None, w1)"
      and r: "appendAll e reqs w1 = (None, w')"
    by (auto split: prod.splits option.splits)
  let ?b = "proxyBlock (proxyName req) (ListenPort req) (AddRuleRequest.RemotePort req)"
  from a Cons.prems(2) have f1: "frpcToml w1 = Some (old @ ?b)"
    using appendString_ok[of e ?b w w1] by (simp add: appendToFrpc_def)
  from Cons.prems(4) have wf: "wellFormedRequest req" and wfs: "list_all wellFormedRequest reqs"
    by simp_all
  note wb = wellFormedRequest_block[OF wf]
  have s1: "shortLines (Split (old @ ?b))"
    by (rule shortLines_append_block[OF Cons.prems(3) wb(1)])
  have p1: "parse (old @ ?b) = parse old @ [requestProxy req]"
    using parse_append_block[OF Cons.prems(3) wb(1)] wb(2) by simp
  from Cons.IH[OF r f1 s1 wfs] p1 show ?case by auto
qed

lemma getFrpProxies_parse: "frpcToml w = Some content \<Longrightarrow> getFrpProxies w = Inr (parse content)"
  by (simp add: getFrpProxies_def)

lemma appendToFrpc_ok:
  assumes "appendToFrpc e req w = (None, w')"
  shows "\<exists>old. frpcToml w = Some old \<and>
     frpcToml w' = Some (old @ proxyBlock (proxyName req) (ListenPort req) (AddRuleRequest.RemotePort req))"
  using assms appendString_ok by (simp add: appendToFrpc_def)

subsection \<open>Numbers\<close>


lemma digit_nth: "k < 10 \<Longrightarrow> reDigit (''0123456789'' ! k)"
proof -
  assume "k < 10"
  then have "k \<in> {0,1,2,3,4,5,6,7,8,9}" by auto
  then show ?thesis by (auto simp: reDigit_def)
qed

lemma natDigits_digits: "natDigits n \<noteq> [] \<and> list_all reDigit (natDigits n)"
proof (induction n rule: natDigits.induct)
  case (1 n)
  show ?case
  proof (cases "n < 10")
    case True
    then show ?thesis by (subst (1 2) natDigits.simps) (simp add: digit_nth)
  next
    case False
    with 1 show ?thesis by (subst (1 2) natDigits.simps) (simp add: digit_nth)
  qed
qed

lemma natDigits_length: "n < 10 ^ k \<Longrightarrow> 0 < k \<Longrightarrow> length (natDigits n) \<le> k"
proof (induction n arbitrary: k rule: natDigits.induct)
  case (1 n)
  show ?case
  proof (cases "n < 10")
    case True
    with 1(3) show ?thesis by (subst natDigits.simps) simp
  next
    case False
    from 1(3) obtain j where k: "k = Suc j" by (cases k) auto
    have j: "0 < j"
    proof (rule ccontr)
      assume "\<not> 0 < j"
      then have "j = 0" by simp
      with 1(2) k False show False by simp
    qed
    from 1(2) k have "n < 10 ^ j * 10" by simp
    then have "n div 10 < 10 ^ j" by (rule less_mult_imp_div_less)
    from 1(1)[OF False this j] False k show ?thesis
      by (subst natDigits.simps) simp
  qed
qed

lemma natDigits_wellFormed:
  assumes "n < 10 ^ 19"
  shows "NL \<notin> set (natDigits n)" and "natDigits n \<noteq> []" and "plain (last (natDigits n))"
    and "length (natDigits n) \<le> 19"
proof -
  have d: "natDigits n \<noteq> []" "list_all reDigit (natDigits n)"
    using natDigits_digits by blast+
  then show "NL \<notin> set (natDigits n)" and "plain (last (natDigits n))"
    using digits_wellFormed by blast+
  from d show "natDigits n \<noteq> []" by simp
  from assms show "length (natDigits n) \<le> 19" by (rule natDigits_length) simp
qed

lemma Sprintf_d_wellFormed:
  assumes "goInt i"
  shows "NL \<notin> set (Sprintf_d i)" and "Sprintf_d i \<noteq> []" and "plain (last (Sprintf_d i))"
    and "length (Sprintf_d i) \<le> 20"
proof -
  have "NL \<notin> set (Sprintf_d i) \<and> Sprintf_d i \<noteq> [] \<and> plain (last (Sprintf_d i))
      \<and> length (Sprintf_d i) \<le> 20"
  proof (cases "i < 0")
    case True
    with assms have "nat (- i) < 10 ^ 19" by (simp add: goInt_def)
    from natDigits_wellFormed[OF this] True show ?thesis
      by (simp add: Sprintf_d_def)
  next
    case False
    with assms have "nat i < 10 ^ 19" by (simp add: goInt_def)
    from natDigits_wellFormed[OF this] False show ?thesis
      by (simp add: Sprintf_d_def)
  qed
  then show "NL \<notin> set (Sprintf_d i)" and "Sprintf_d i \<noteq> []" and "plain (last (Sprintf_d i))"
    and "length (Sprintf_d i) \<le> 20"
    by simp_all
qed

lemma register_block_wellFormed:
  assumes "NL \<notin> set n" "length n + 9 < MaxScanTokenSize" "goInt p" "goInt q"
  shows "wellFormedBlock n (Sprintf_d p) (Sprintf_d q)"
  using assms Sprintf_d_wellFormed[OF assms(3)] Sprintf_d_wellFormed[OF assms(4)]
  by (simp add: wellFormedBlock_def MaxScanTokenSize_def)

lemma register_present:
  assumes "getFrpProxies w = Inr proxies"
    "list_ex (\<lambda>p. FrpProxy.Name p = webUIProxyFullName config) proxies"
  shows "registerWebUIToFrpc config e w = (None, w)"
  using assms by (simp add: registerWebUIToFrpc_def)

lemma namedCount_pos:
  "0 < namedCount name content \<longleftrightarrow> list_ex (\<lambda>p. FrpProxy.Name p = name) (parse content)"
  by (auto simp: namedCount_def list_ex_iff filter_empty_conv)

lemma register_twice:
  assumes old: "frpcToml w = Some old" and sh: "shortLines (Split old)"
    and nl: "NL \<notin> set (webUIProxyFullName config)"
    and len: "length (webUIProxyFullName config) + 9 < MaxScanTokenSize"
    and ints: "goInt (Port config)" "goInt (WebUIRemotePort config)"
    and le: "namedCount (webUIProxyFullName config) old \<le> 1"
    and r1: "registerWebUIToFrpc config e w = (None, w1)"
    and r2: "registerWebUIToFrpc config e' w1 = (None, w2)"
  shows "w2 = w1 \<and> (\<exists>new. frpcToml w2 = Some new \<and> namedCount (webUIProxyFullName config) new = 1)"
proof (cases "list_ex (\<lambda>p. FrpProxy.Name p = webUIProxyFullName config) (parse old)")
  case True
  with old have p: "registerWebUIToFrpc config e w = (None, w)"
    by (intro register_present[of w "parse old"]) (simp_all add: getFrpProxies_parse)
  with r1 have w1: "w1 = w" by simp
  from True old have "registerWebUIToFrpc config e' w = (None, w)"
    by (intro register_present[of w "parse old"]) (simp_all add: getFrpProxies_parse)
  with r2 w1 have "w2 = w1" by simp
  moreover from True le have "namedCount (webUIProxyFullName config) old = 1"
    using namedCount_pos[of "webUIProxyFullName config" old] by simp
  ultimately show ?thesis using old w1 by simp
next
  case False
  let ?n = "webUIProxyFullName config"
  let ?b = "proxyBlock ?n (Sprintf_d (Port config)) (Sprintf_d (WebUIRemotePort config))"
  from False old r1 have "appendString e ?b w = (None, w1)"
    by (simp add: registerWebUIToFrpc_def getFrpProxies_parse)
  from appendString_ok[OF this] old have f1: "frpcToml w1 = Some (old @ ?b)" by simp
  note wb = register_block_wellFormed[OF nl len ints]
  have p1: "parse (old @ ?b) = parse old @ [blockProxy ?n (Sprintf_d (Port config))
      (Sprintf_d (WebUIRemotePort config))]"
    by (rule parse_append_block[OF sh wb])
  then have ex: "list_ex (\<lambda>p. FrpProxy.Name p = ?n) (parse (old @ ?b))"
    by (simp add: blockProxy_def)
  with f1 have "registerWebUIToFrpc config e' w1 = (None, w1)"
    by (intro register_present[of w1 "parse (old @ ?b)"]) (simp_all add: getFrpProxies_parse)
  with r2 have "w2 = w1" by simp
  moreover from False have "filter (\<lambda>p. FrpProxy.Name p = ?n) (parse old) = []"
    by (auto simp: list_ex_iff filter_empty_conv)
  then have "namedCount ?n (old @ ?b) = 1"
    by (simp add: namedCount_def p1 blockProxy_def)
  ultimately show ?thesis using f1 by simp
qed

subsection \<open>Counting the records\<close>


lemma CR_sequences:
  assumes "sp \<in> set unicodeSpaces" "sp = t @ [CR]"
  shows "t = []"
  using assms unfolding unicodeSpaces_def by auto

lemma find_cong_set:
  "(\<And>x. x \<in> set xs \<Longrightarrow> P x = Q x) \<Longrightarrow> find P xs = find Q xs"
  by (induction xs) auto

lemma stripLeading_snoc_CR:
  "stripLeading unicodeSpaces (t @ [CR]) =
     (if stripLeading unicodeSpaces t = [] then [] else stripLeading unicodeSpaces t @ [CR])"
proof (induction "length t" arbitrary: t rule: less_induct)
  case less
  show ?case
  proof (cases "t = []")
    case True
    have "find (\<lambda>sp. sp \<noteq> [] \<and> prefix sp [CR]) unicodeSpaces = Some [CR]"
      by (simp add: unicodeSpaces_def)
    then have "stripLeading unicodeSpaces [CR] = stripLeading unicodeSpaces []"
      by (subst stripLeading.simps) simp
    moreover have "stripLeading unicodeSpaces [] = []"
      by (subst stripLeading.simps) (simp add: unicodeSpaces_def)
    ultimately show ?thesis using True by simp
  next
    case False
    have same: "find (\<lambda>sp. sp \<noteq> [] \<and> prefix sp (t @ [CR])) unicodeSpaces =
        find (\<lambda>sp. sp \<noteq> [] \<and> prefix sp t) unicodeSpaces"
    proof (rule find_cong_set)
      fix sp assume m: "sp \<in> set unicodeSpaces"
      show "(sp \<noteq> [] \<and> prefix sp (t @ [CR])) = (sp \<noteq> [] \<and> prefix sp t)"
        using CR_sequences[OF m, of t] False by (auto simp: prefix_snoc)
    qed
    show ?thesis
    proof (cases "find (\<lambda>sp. sp \<noteq> [] \<and> prefix sp t) unicodeSpaces")
      case None
      with same have "stripLeading unicodeSpaces (t @ [CR]) = t @ [CR]"
        by (subst stripLeading.simps) simp
      moreover from None have "stripLeading unicodeSpaces t = t"
        by (subst stripLeading.simps) simp
      ultimately show ?thesis using False by simp
    next
      case (Some sp)
      then have ne: "sp \<noteq> []" and pre: "prefix sp t" by (auto simp: find_Some_iff)
      then have d: "drop (length sp) (t @ [CR]) = drop (length sp) t @ [CR]"
        by (auto simp: prefix_def)
      from ne pre have "length (drop (length sp) t) < length t"
        by (cases t) (auto simp: prefix_def)
      note ih = less[OF this]
      from Some same have f: "find (\<lambda>sp. sp \<noteq> [] \<and> prefix sp (t @ [CR])) unicodeSpaces = Some sp"
        by simp
      have "stripLeading unicodeSpaces (t @ [CR]) =
          stripLeading unicodeSpaces (drop (length sp) (t @ [CR]))"
        by (subst stripLeading.simps) (simp only: f option.case)
      then have 1: "stripLeading unicodeSpaces (t @ [CR]) =
          stripLeading unicodeSpaces (drop (length sp) t @ [CR])"
        by (simp only: d)
      from Some have 2: "stripLeading unicodeSpaces t = stripLeading unicodeSpaces (drop (length sp) t)"
        by (subst stripLeading.simps) simp
      from 1 2 ih show ?thesis by simp
    qed
  qed
qed

lemma stripLeading_rev_CR:
  "stripLeading (map rev unicodeSpaces) (CR # x) = stripLeading (map rev unicodeSpaces) x"
proof -
  have "find (\<lambda>sp. sp \<noteq> [] \<and> prefix sp (CR # x)) (map rev unicodeSpaces) = Some [CR]"
    by (simp add: unicodeSpaces_def)
  then show ?thesis by (subst stripLeading.simps) simp
qed

lemma stripLeading_rev_Nil: "stripLeading (map rev unicodeSpaces) [] = []"
  by (subst stripLeading.simps) (simp add: unicodeSpaces_def)

lemma TrimSpace_snoc_CR: "TrimSpace (t @ [CR]) = TrimSpace t"
  by (simp add: TrimSpace_def stripLeading_snoc_CR stripLeading_rev_CR stripLeading_rev_Nil)

lemma TrimSpace_dropCR: "TrimSpace (dropCR l) = TrimSpace l"
proof (cases "l \<noteq> [] \<and> last l = CR")
  case True
  then have "l = butlast l @ [CR]" using append_butlast_last_id[of l] by simp
  then have "TrimSpace l = TrimSpace (butlast l)" using TrimSpace_snoc_CR[of "butlast l"] by simp
  with True show ?thesis by (simp add: dropCR_def)
next
  case False
  then show ?thesis by (auto simp: dropCR_def)
qed

lemma length_flush: "length (flush ps cur) = length ps + (if cur = None then 0 else 1)"
  by (simp add: flush_def split: option.splits)

lemma foldl_parseStep_count:
  "foldl parseStep (ps, cur) ls = (ps', cur') \<Longrightarrow>
     length (flush ps' cur') =
       length (flush ps cur) + length (filter (\<lambda>l. TrimSpace l = marker) ls)"
proof (induction ls arbitrary: ps cur)
  case Nil
  then show ?case by simp
next
  case (Cons l ls)
  obtain ps1 cur1 where s: "parseStep (ps, cur) l = (ps1, cur1)"
    by (cases "parseStep (ps, cur) l") auto
  with Cons.prems have "foldl parseStep (ps1, cur1) ls = (ps', cur')" by simp
  from Cons.IH[OF this] have ih: "length (flush ps' cur') =
       length (flush ps1 cur1) + length (filter (\<lambda>l. TrimSpace l = marker) ls)" .
  have "length (flush ps1 cur1) =
      length (flush ps cur) + (if TrimSpace l = marker then 1 else 0)"
    using s by (auto simp: parseStep_def length_flush split: if_splits option.splits)
  with ih show ?case by simp
qed

lemma parse_count:
  assumes "shortLines (Split content)"
  shows "length (parse content) = markerCount content"
proof -
  obtain ps cur where st: "foldl parseStep ([], None) (map dropCR (Split content)) = (ps, cur)"
    by (cases "foldl parseStep ([], None) (map dropCR (Split content))") auto
  from foldl_parseStep_count[OF st]
  have "length (flush ps cur) = length (filter (\<lambda>l. TrimSpace l = marker) (map dropCR (Split content)))"
    by (simp add: flush_def)
  also have "\<dots> = markerCount content"
    by (simp add: markerCount_def filter_map comp_def TrimSpace_dropCR)
  finally show ?thesis
    using foldl_parseStep_scanLines[OF assms, of "([], None)"] st
    by (simp add: parse_def parseLoop_foldl)
qed

subsection \<open>Examples of parsing and registration\<close>


lemma bob_wellFormed: "wellFormedRequest bobRequest"
  by (simp add: wellFormedRequest_def bobRequest_def proxyName_def reDigit_def MaxScanTokenSize_def)

lemma alice_wellFormed: "wellFormedRequest aliceRequest"
  by (simp add: wellFormedRequest_def aliceRequest_def proxyName_def reDigit_def MaxScanTokenSize_def)

lemma bob_append:
  "appendToFrpc quietEnv bobRequest (fileWorld []) =
     (None, afterAppend [] [proxyBlock ''bob-manager-10.0.0.9-443'' ''9000'' ''7000''])"
  by (simp add: appendToFrpc_def appendString_def quietEnv_def fileWorld_def afterAppend_def
      bobRequest_def proxyName_def Let_def)

lemma bob_alice_append:
  "appendAll quietEnv [bobRequest, aliceRequest] (fileWorld []) =
     (None, afterAppend [] [proxyBlock ''bob-manager-10.0.0.9-443'' ''9000'' ''7000'',
                            proxyBlock ''alice-manager-10.0.0.5-80'' ''8000'' ''6000''])"
  by (simp add: appendToFrpc_def appendString_def quietEnv_def fileWorld_def afterAppend_def
      bobRequest_def aliceRequest_def proxyName_def Let_def)


lemmas parse_eval =
  parse_def scanLines_def MaxScanTokenSize_def dropCR_def setField_def flush_def emptyProxy_def
  string_eval

lemma long_line: "TrimSpace (replicate 65536 (CHR ''#'')) = replicate 65536 (CHR ''#'')"
  by (rule TrimSpace_id) (simp_all add: plain_def unicodeSpaces_def)

lemma long_line_not_marker: "replicate 65536 (CHR ''#'') \<noteq> marker"
proof
  assume "replicate 65536 (CHR ''#'') = marker"
  then have "length (replicate 65536 (CHR ''#'')) = length marker" by simp
  then show False by (simp add: marker_def)
qed

lemma long_line_Split:
  "Split longLineRegistry = [replicate 65536 (CHR ''#''), ''[[proxies]]'', ''name = \"web\"'']"
  by (simp add: longLineRegistry_def Split_append_NL Split_noNL)


lemma default_name: "webUIProxyFullName defaultConfig = ''default-portproxy-manager-web''"
  by (simp add: webUIProxyFullName_def defaultConfig_def)

lemma newline_name: "webUIProxyFullName newlineConfig = ''a'' @ [NL] @ ''b-portproxy-manager-web''"
  by (simp add: webUIProxyFullName_def newlineConfig_def defaultConfig_def)

lemma default_ports: "Sprintf_d 8080 = ''8080''" "Sprintf_d 18080 = ''18080''"
  by (simp_all add: Sprintf_d_def natDigits.simps)

lemma parse_webUIBlock:
  "parse webUIBlock =
     [\<lparr>FrpProxy.Name = ''default-portproxy-manager-web'', Type = ''tcp'', LocalIP = ''127.0.0.1'',
       LocalPort = ''8080'', RemotePort = ''18080''\<rparr>]"
  by (simp add: webUIBlock_def parse_eval)

lemma parse_webUIBlock_twice:
  "parse (webUIBlock @ webUIBlock) =
     [\<lparr>FrpProxy.Name = ''default-portproxy-manager-web'', Type = ''tcp'', LocalIP = ''127.0.0.1'',
       LocalPort = ''8080'', RemotePort = ''18080''\<rparr>,
      \<lparr>FrpProxy.Name = ''default-portproxy-manager-web'', Type = ''tcp'', LocalIP = ''127.0.0.1'',
       LocalPort = ''8080'', RemotePort = ''18080''\<rparr>]"
  by (simp add: webUIBlock_def parse_eval)

lemma parse_newlineBlock:
  "parse newlineBlock =
     [\<lparr>FrpProxy.Name = [], Type = ''tcp'', LocalIP = ''127.0.0.1'',
       LocalPort = ''8080'', RemotePort = ''18080''\<rparr>]"
  by (simp add: newlineBlock_def parse_eval)

lemma parse_newlineBlock_twice:
  "parse (newlineBlock @ newlineBlock) =
     [\<lparr>FrpProxy.Name = [], Type = ''tcp'', LocalIP = ''127.0.0.1'',
       LocalPort = ''8080'', RemotePort = ''18080''\<rparr>,
      \<lparr>FrpProxy.Name = [], Type = ''tcp'', LocalIP = ''127.0.0.1'',
       LocalPort = ''8080'', RemotePort = ''18080''\<rparr>]"
  by (simp add: newlineBlock_def parse_eval)

lemma register_run:
  assumes "\<not> list_ex (\<lambda>p. FrpProxy.Name p = webUIProxyFullName config)
               (parse (content @ concat blocks))"
  shows "registerWebUIToFrpc config quietEnv (afterAppend content blocks) =
     (None, afterAppend content (blocks @
        [proxyBlock (webUIProxyFullName config) (Sprintf_d (Port config))
           (Sprintf_d (WebUIRemotePort config))]))"
  using assms
  by (simp add: registerWebUIToFrpc_def getFrpProxies_def afterAppend_def appendString_def
      quietEnv_def Let_def)

lemma fileWorld_afterAppend: "fileWorld content = afterAppend content []"
  by (simp add: fileWorld_def afterAppend_def)


subsection \<open>The claims about parsing, appending and registration\<close>

text \<open>
  Claim C3 at a file with a first line of 65536 bytes followed by one block named
  \<open>web\<close>: the file has one marker line, \<^verbatim>\<open>getFrpProxies\<close> returns no record and no error
  (the scanner stops at the long line and its error is never read), while the deletion
  of \<open>web\<close>, which reads the file with \<^verbatim>\<open>os.ReadFile\<close>, finds the block and removes it.
\<close>

theorem parse_stops_at_long_line:
  "markerCount longLineRegistry = 1
   \<and> getFrpProxies (fileWorld longLineRegistry) = Inr []
   \<and> deleteContent ''web'' longLineRegistry = replicate 65536 (CHR ''#'')"
proof (intro conjI)
  have m: "TrimSpace ''[[proxies]]'' = marker" "TrimSpace ''name = \"web\"'' \<noteq> marker"
    by (simp_all add: string_eval)
  show "markerCount longLineRegistry = 1"
    using long_line_not_marker by (simp add: markerCount_def long_line_Split long_line m)
  show "getFrpProxies (fileWorld longLineRegistry) = Inr []"
    by (simp add: getFrpProxies_def fileWorld_def parse_def scanLines_def long_line_Split
        MaxScanTokenSize_def flush_def)
  have n: "nextNamed ''web'' [''name = \"web\"'']" "\<not> sectionStart (TrimSpace ''name = \"web\"'')"
    by (simp_all add: string_eval)
  show "deleteContent ''web'' longLineRegistry = replicate 65536 (CHR ''#'')"
    using long_line_not_marker
    by (simp add: deleteContent_def long_line_Split deleteLoop.simps long_line m n Let_def)
qed

text \<open>
  Claim C5, as amended. When a parsed entry already has the canonical name,
  \<^verbatim>\<open>registerWebUIToFrpc\<close> returns no error and leaves the world as it is. When the file can be
  read, its lines fit the scanner, the canonical name holds no newline and fits a line,
  and at most one entry has that name, two runs that return no error leave exactly one
  entry with that name, and the second run writes nothing.
\<close>

theorem registration_idempotent:
  "(getFrpProxies w = Inr proxies
       \<and> list_ex (\<lambda>p. FrpProxy.Name p = Config.Name config @ ''-'' @ WebUIProxyName config) proxies \<longrightarrow>
      registerWebUIToFrpc config e w = (None, w))
   \<and> (frpcToml w = Some old \<and> shortLines (Split old)
       \<and> NL \<notin> set (Config.Name config @ ''-'' @ WebUIProxyName config)
       \<and> length (Config.Name config @ ''-'' @ WebUIProxyName config) + 9 < MaxScanTokenSize
       \<and> goInt (Port config) \<and> goInt (WebUIRemotePort config)
       \<and> namedCount (Config.Name config @ ''-'' @ WebUIProxyName config) old \<le> 1
       \<and> registerWebUIToFrpc config e w = (None, w1)
       \<and> registerWebUIToFrpc config e' w1 = (None, w2) \<longrightarrow>
      w2 = w1
      \<and> (\<exists>new. frpcToml w2 = Some new
             \<and> namedCount (Config.Name config @ ''-'' @ WebUIProxyName config) new = 1))"
proof -
  have n: "webUIProxyFullName config = Config.Name config @ ''-'' @ WebUIProxyName config"
    by (simp add: webUIProxyFullName_def)
  have present: "getFrpProxies w = Inr proxies
       \<and> list_ex (\<lambda>p. FrpProxy.Name p = Config.Name config @ ''-'' @ WebUIProxyName config) proxies \<longrightarrow>
      registerWebUIToFrpc config e w = (None, w)"
    using register_present[of w proxies config e] unfolding n by blast
  have twice: "frpcToml w = Some old \<and> shortLines (Split old)
       \<and> NL \<notin> set (Config.Name config @ ''-'' @ WebUIProxyName config)
       \<and> length (Config.Name config @ ''-'' @ WebUIProxyName config) + 9 < MaxScanTokenSize
       \<and> goInt (Port config) \<and> goInt (WebUIRemotePort config)
       \<and> namedCount (Config.Name config @ ''-'' @ WebUIProxyName config) old \<le> 1
       \<and> registerWebUIToFrpc config e w = (None, w1)
       \<and> registerWebUIToFrpc config e' w1 = (None, w2) \<longrightarrow>
      w2 = w1
      \<and> (\<exists>new. frpcToml w2 = Some new
             \<and> namedCount (Config.Name config @ ''-'' @ WebUIProxyName config) new = 1)"
    using register_twice[of w old config e w1 e' w2] unfolding n by blast
  from present twice show ?thesis by (rule conjI)
qed

theorem registration_idempotent_witness:
  "(getFrpProxies (fileWorld webUIBlock) = Inr (parse webUIBlock)
      \<and> list_ex (\<lambda>p. FrpProxy.Name p = Config.Name defaultConfig @ ''-'' @ WebUIProxyName defaultConfig)
           (parse webUIBlock)
      \<and> registerWebUIToFrpc defaultConfig quietEnv (fileWorld webUIBlock) = (None, fileWorld webUIBlock))
   \<and> (frpcToml (fileWorld []) = Some [] \<and> shortLines (Split [])
      \<and> NL \<notin> set (Config.Name defaultConfig @ ''-'' @ WebUIProxyName defaultConfig)
      \<and> length (Config.Name defaultConfig @ ''-'' @ WebUIProxyName defaultConfig) + 9 < MaxScanTokenSize
      \<and> goInt (Port defaultConfig) \<and> goInt (WebUIRemotePort defaultConfig)
      \<and> namedCount (Config.Name defaultConfig @ ''-'' @ WebUIProxyName defaultConfig) [] \<le> 1
      \<and> registerWebUIToFrpc defaultConfig quietEnv (fileWorld []) = (None, afterAppend [] [webUIBlock])
      \<and> registerWebUIToFrpc defaultConfig quietEnv (afterAppend [] [webUIBlock]) =
           (None, afterAppend [] [webUIBlock])
      \<and> (\<exists>new. frpcToml (afterAppend [] [webUIBlock]) = Some new
             \<and> namedCount (Config.Name defaultConfig @ ''-'' @ WebUIProxyName defaultConfig) new = 1))"
proof -
  have a1: "getFrpProxies (fileWorld webUIBlock) = Inr (parse webUIBlock)"
    by (simp add: getFrpProxies_def fileWorld_def)
  have a2: "list_ex (\<lambda>p. FrpProxy.Name p = Config.Name defaultConfig @ ''-'' @ WebUIProxyName defaultConfig)
           (parse webUIBlock)"
    by (simp add: defaultConfig_def parse_webUIBlock)
  from registration_idempotent[where w = "fileWorld webUIBlock" and proxies = "parse webUIBlock"
      and config = defaultConfig and e = quietEnv] a1 a2
  have a3: "registerWebUIToFrpc defaultConfig quietEnv (fileWorld webUIBlock) =
      (None, fileWorld webUIBlock)"
    by blast
  have b1: "frpcToml (fileWorld []) = Some []" by (simp add: fileWorld_def)
  have b2: "NL \<notin> set (Config.Name defaultConfig @ ''-'' @ WebUIProxyName defaultConfig)"
    "length (Config.Name defaultConfig @ ''-'' @ WebUIProxyName defaultConfig) + 9 < MaxScanTokenSize"
    by (simp_all add: defaultConfig_def MaxScanTokenSize_def)
  have b3: "goInt (Port defaultConfig)" "goInt (WebUIRemotePort defaultConfig)"
    by (simp_all add: goInt_def defaultConfig_def)
  have b4: "namedCount (Config.Name defaultConfig @ ''-'' @ WebUIProxyName defaultConfig) [] \<le> 1"
    by (simp add: namedCount_def parse_Nil)
  have blk: "proxyBlock (webUIProxyFullName defaultConfig) (Sprintf_d (Port defaultConfig))
      (Sprintf_d (WebUIRemotePort defaultConfig)) = webUIBlock"
    by (simp add: webUIProxyFullName_def webUIBlock_def default_ports defaultConfig_def)
  have "\<not> list_ex (\<lambda>p. FrpProxy.Name p = webUIProxyFullName defaultConfig)
      (parse ([] @ concat []))"
    by (simp add: parse_Nil)
  from register_run[OF this]
  have b5: "registerWebUIToFrpc defaultConfig quietEnv (fileWorld []) =
      (None, afterAppend [] [webUIBlock])"
    unfolding blk by (simp add: fileWorld_afterAppend)
  have b6: "registerWebUIToFrpc defaultConfig quietEnv (afterAppend [] [webUIBlock]) =
      (None, afterAppend [] [webUIBlock])"
    by (rule register_present[where proxies = "parse webUIBlock"])
       (simp_all add: getFrpProxies_def afterAppend_def parse_webUIBlock default_name)
  from registration_idempotent[where w = "fileWorld []" and old = "[]" and config = defaultConfig
      and e = quietEnv and e' = quietEnv and ?w1.0 = "afterAppend [] [webUIBlock]"
      and ?w2.0 = "afterAppend [] [webUIBlock]"] b1 shortLines_Nil b2 b3 b4 b5 b6
  have b7: "\<exists>new. frpcToml (afterAppend [] [webUIBlock]) = Some new
             \<and> namedCount (Config.Name defaultConfig @ ''-'' @ WebUIProxyName defaultConfig) new = 1"
    by blast
  from a1 a2 a3 b1 shortLines_Nil b2 b3 b4 b5 b6 b7 show ?thesis by blast
qed

text \<open>
  Claim C5 as stated fails. With a newline in the configured identity the parser never
  reads the canonical name back: each of two runs on an empty file appends a block, and
  no parsed entry has the canonical name. And a file that already holds two entries with
  the canonical name keeps both.
\<close>

theorem registration_idempotent_counterexample:
  "registerWebUIToFrpc newlineConfig quietEnv (fileWorld []) = (None, afterAppend [] [newlineBlock])
   \<and> registerWebUIToFrpc newlineConfig quietEnv (afterAppend [] [newlineBlock]) =
        (None, afterAppend [] [newlineBlock, newlineBlock])
   \<and> frpcToml (afterAppend [] [newlineBlock, newlineBlock]) = Some (newlineBlock @ newlineBlock)
   \<and> namedCount (Config.Name newlineConfig @ ''-'' @ WebUIProxyName newlineConfig)
        (newlineBlock @ newlineBlock) = 0
   \<and> registerWebUIToFrpc defaultConfig quietEnv (fileWorld (webUIBlock @ webUIBlock)) =
        (None, fileWorld (webUIBlock @ webUIBlock))
   \<and> namedCount (Config.Name defaultConfig @ ''-'' @ WebUIProxyName defaultConfig)
        (webUIBlock @ webUIBlock) = 2"
proof -
  have blk: "proxyBlock (webUIProxyFullName newlineConfig) (Sprintf_d (Port newlineConfig))
      (Sprintf_d (WebUIRemotePort newlineConfig)) = newlineBlock"
    by (simp add: webUIProxyFullName_def newlineBlock_def default_ports newlineConfig_def
        defaultConfig_def)
  have "\<not> list_ex (\<lambda>p. FrpProxy.Name p = webUIProxyFullName newlineConfig)
      (parse ([] @ concat []))"
    by (simp add: parse_Nil)
  from register_run[OF this]
  have 1: "registerWebUIToFrpc newlineConfig quietEnv (fileWorld []) =
      (None, afterAppend [] [newlineBlock])"
    unfolding blk by (simp add: fileWorld_afterAppend)
  have "\<not> list_ex (\<lambda>p. FrpProxy.Name p = webUIProxyFullName newlineConfig)
      (parse ([] @ concat [newlineBlock]))"
    by (simp add: parse_newlineBlock newline_name)
  from register_run[OF this]
  have 2: "registerWebUIToFrpc newlineConfig quietEnv (afterAppend [] [newlineBlock]) =
        (None, afterAppend [] [newlineBlock, newlineBlock])"
    unfolding blk by simp
  have 3: "frpcToml (afterAppend [] [newlineBlock, newlineBlock]) = Some (newlineBlock @ newlineBlock)"
    by (simp add: afterAppend_def)
  have 4: "namedCount (Config.Name newlineConfig @ ''-'' @ WebUIProxyName newlineConfig)
        (newlineBlock @ newlineBlock) = 0"
    by (simp add: namedCount_def parse_newlineBlock_twice newlineConfig_def defaultConfig_def)
  have 5: "registerWebUIToFrpc defaultConfig quietEnv (fileWorld (webUIBlock @ webUIBlock)) =
        (None, fileWorld (webUIBlock @ webUIBlock))"
    by (rule register_present[where proxies = "parse (webUIBlock @ webUIBlock)"])
       (simp_all add: getFrpProxies_def fileWorld_def parse_webUIBlock_twice default_name)
  have 6: "namedCount (Config.Name defaultConfig @ ''-'' @ WebUIProxyName defaultConfig)
        (webUIBlock @ webUIBlock) = 2"
    by (simp add: namedCount_def parse_webUIBlock_twice defaultConfig_def)
  from 1 2 3 4 5 6 show ?thesis by blast
qed

text \<open>
  Claim C6. When \<^verbatim>\<open>appendToFrpc\<close> returns no error, the file is the old content followed
  by a block with the name \<^verbatim>\<open>{identity}-manager-{connectAddress}-{connectPort}\<close>, the type
  \<^verbatim>\<open>tcp\<close>, the local address \<^verbatim>\<open>127.0.0.1\<close>, the request's listening port as local port
  and the request's remote port; the identity is the name the request carries. For a
  well-formed request on a file whose lines fit the scanner, \<^verbatim>\<open>getFrpProxies\<close> then
  returns the old records followed by the record with these five values.
\<close>

theorem add_rule_block:
  "(appendToFrpc e req w = (None, w') \<longrightarrow>
      (\<exists>old. frpcToml w = Some old \<and>
         frpcToml w' = Some (old @ [NL] @ ''[[proxies]]'' @ [NL]
           @ ''name = \"'' @ AddRuleRequest.Name req @ ''-manager-'' @ ConnectAddr req @ ''-''
               @ ConnectPort req @ ''\"'' @ [NL]
           @ ''type = \"tcp\"'' @ [NL]
           @ ''localIP = \"127.0.0.1\"'' @ [NL]
           @ ''localPort = '' @ ListenPort req @ [NL]
           @ ''remotePort = '' @ AddRuleRequest.RemotePort req @ [NL])))
   \<and> (appendToFrpc e req w = (None, w') \<and> frpcToml w = Some old \<and> shortLines (Split old)
       \<and> wellFormedRequest req \<longrightarrow>
      getFrpProxies w' =
        Inr (parse old @
          [\<lparr>FrpProxy.Name = AddRuleRequest.Name req @ ''-manager-'' @ ConnectAddr req @ ''-''
               @ ConnectPort req,
            Type = ''tcp'', LocalIP = ''127.0.0.1'', LocalPort = ListenPort req,
            RemotePort = AddRuleRequest.RemotePort req\<rparr>]))"
proof (intro conjI impI)
  assume "appendToFrpc e req w = (None, w')"
  from appendToFrpc_ok[OF this]
  show "\<exists>old. frpcToml w = Some old \<and>
         frpcToml w' = Some (old @ [NL] @ ''[[proxies]]'' @ [NL]
           @ ''name = \"'' @ AddRuleRequest.Name req @ ''-manager-'' @ ConnectAddr req @ ''-''
               @ ConnectPort req @ ''\"'' @ [NL]
           @ ''type = \"tcp\"'' @ [NL]
           @ ''localIP = \"127.0.0.1\"'' @ [NL]
           @ ''localPort = '' @ ListenPort req @ [NL]
           @ ''remotePort = '' @ AddRuleRequest.RemotePort req @ [NL])"
    by (simp add: proxyBlock_def proxyName_def)
next
  assume a: "appendToFrpc e req w = (None, w') \<and> frpcToml w = Some old \<and> shortLines (Split old)
       \<and> wellFormedRequest req"
  then have wf: "wellFormedRequest req" and sh: "shortLines (Split old)" by simp_all
  from a appendToFrpc_ok[of e req w w']
  have "frpcToml w' =
      Some (old @ proxyBlock (proxyName req) (ListenPort req) (AddRuleRequest.RemotePort req))"
    by auto
  then have "getFrpProxies w' = Inr (parse old @ [requestProxy req])"
    using parse_append_block[OF sh wellFormedRequest_block(1)[OF wf]]
      wellFormedRequest_block(2)[OF wf]
    by (simp add: getFrpProxies_parse)
  then show "getFrpProxies w' =
        Inr (parse old @
          [\<lparr>FrpProxy.Name = AddRuleRequest.Name req @ ''-manager-'' @ ConnectAddr req @ ''-''
               @ ConnectPort req,
            Type = ''tcp'', LocalIP = ''127.0.0.1'', LocalPort = ListenPort req,
            RemotePort = AddRuleRequest.RemotePort req\<rparr>])"
    by (simp add: requestProxy_def proxyName_def)
qed

theorem add_rule_block_witness:
  "appendToFrpc quietEnv bobRequest (fileWorld []) =
     (None, afterAppend [] [proxyBlock ''bob-manager-10.0.0.9-443'' ''9000'' ''7000''])
   \<and> frpcToml (fileWorld []) = Some []
   \<and> shortLines (Split [])
   \<and> wellFormedRequest bobRequest
   \<and> frpcToml (afterAppend [] [proxyBlock ''bob-manager-10.0.0.9-443'' ''9000'' ''7000'']) =
       Some ([NL] @ ''[[proxies]]'' @ [NL] @ ''name = \"bob-manager-10.0.0.9-443\"'' @ [NL]
             @ ''type = \"tcp\"'' @ [NL] @ ''localIP = \"127.0.0.1\"'' @ [NL]
             @ ''localPort = 9000'' @ [NL] @ ''remotePort = 7000'' @ [NL])
   \<and> getFrpProxies (afterAppend [] [proxyBlock ''bob-manager-10.0.0.9-443'' ''9000'' ''7000'']) =
       Inr [\<lparr>FrpProxy.Name = ''bob-manager-10.0.0.9-443'', Type = ''tcp'', LocalIP = ''127.0.0.1'',
             LocalPort = ''9000'', RemotePort = ''7000''\<rparr>]"
proof -
  have f: "frpcToml (fileWorld []) = Some []" by (simp add: fileWorld_def)
  note t = add_rule_block[where e = quietEnv and req = bobRequest and w = "fileWorld []"
      and w' = "afterAppend [] [proxyBlock ''bob-manager-10.0.0.9-443'' ''9000'' ''7000'']"
      and old = "[]"]
  from t bob_append f shortLines_Nil bob_wellFormed
  have "getFrpProxies (afterAppend [] [proxyBlock ''bob-manager-10.0.0.9-443'' ''9000'' ''7000'']) =
       Inr [\<lparr>FrpProxy.Name = ''bob-manager-10.0.0.9-443'', Type = ''tcp'', LocalIP = ''127.0.0.1'',
             LocalPort = ''9000'', RemotePort = ''7000''\<rparr>]"
    by (simp add: parse_Nil bobRequest_def)
  moreover have "frpcToml (afterAppend [] [proxyBlock ''bob-manager-10.0.0.9-443'' ''9000'' ''7000'']) =
       Some ([NL] @ ''[[proxies]]'' @ [NL] @ ''name = \"bob-manager-10.0.0.9-443\"'' @ [NL]
             @ ''type = \"tcp\"'' @ [NL] @ ''localIP = \"127.0.0.1\"'' @ [NL]
             @ ''localPort = 9000'' @ [NL] @ ''remotePort = 7000'' @ [NL])"
    by (simp add: afterAppend_def proxyBlock_def)
  ultimately show ?thesis
    using bob_append f shortLines_Nil bob_wellFormed by blast
qed

text \<open>
  Claim C8. Appending the blocks of a list of well-formed requests to an empty registry
  file, in order and with no failed write, and parsing the file gives back the records
  of the requests, in order. The names need not even be distinct.
\<close>

theorem serialize_parse_round_trip:
  "frpcToml w = Some [] \<and> list_all wellFormedRequest reqs \<and> appendAll e reqs w = (None, w') \<longrightarrow>
     getFrpProxies w' = Inr (map requestProxy reqs)"
proof
  assume a: "frpcToml w = Some [] \<and> list_all wellFormedRequest reqs \<and> appendAll e reqs w = (None, w')"
  then obtain new where "frpcToml w' = Some new" "parse new = parse [] @ map requestProxy reqs"
    using appendAll_parse[of e reqs w w' "[]"] shortLines_Nil by blast
  then show "getFrpProxies w' = Inr (map requestProxy reqs)"
    by (simp add: getFrpProxies_parse parse_Nil)
qed

theorem serialize_parse_round_trip_witness:
  "frpcToml (fileWorld []) = Some []
   \<and> list_all wellFormedRequest [bobRequest, aliceRequest]
   \<and> distinct (map proxyName [bobRequest, aliceRequest])
   \<and> appendAll quietEnv [bobRequest, aliceRequest] (fileWorld []) =
       (None, afterAppend [] [proxyBlock ''bob-manager-10.0.0.9-443'' ''9000'' ''7000'',
                              proxyBlock ''alice-manager-10.0.0.5-80'' ''8000'' ''6000''])
   \<and> getFrpProxies (afterAppend [] [proxyBlock ''bob-manager-10.0.0.9-443'' ''9000'' ''7000'',
                              proxyBlock ''alice-manager-10.0.0.5-80'' ''8000'' ''6000'']) =
       Inr [\<lparr>FrpProxy.Name = ''bob-manager-10.0.0.9-443'', Type = ''tcp'', LocalIP = ''127.0.0.1'',
             LocalPort = ''9000'', RemotePort = ''7000''\<rparr>,
            \<lparr>FrpProxy.Name = ''alice-manager-10.0.0.5-80'', Type = ''tcp'', LocalIP = ''127.0.0.1'',
             LocalPort = ''8000'', RemotePort = ''6000''\<rparr>]"
proof -
  have f: "frpcToml (fileWorld []) = Some []" by (simp add: fileWorld_def)
  have wf: "list_all wellFormedRequest [bobRequest, aliceRequest]"
    by (simp add: bob_wellFormed alice_wellFormed)
  have d: "distinct (map proxyName [bobRequest, aliceRequest])"
    by (simp add: proxyName_def bobRequest_def aliceRequest_def)
  from serialize_parse_round_trip[where w = "fileWorld []" and reqs = "[bobRequest, aliceRequest]"
      and e = quietEnv
      and w' = "afterAppend [] [proxyBlock ''bob-manager-10.0.0.9-443'' ''9000'' ''7000'',
                              proxyBlock ''alice-manager-10.0.0.5-80'' ''8000'' ''6000'']"]
    f wf bob_alice_append
  have "getFrpProxies (afterAppend [] [proxyBlock ''bob-manager-10.0.0.9-443'' ''9000'' ''7000'',
                              proxyBlock ''alice-manager-10.0.0.5-80'' ''8000'' ''6000'']) =
       Inr [\<lparr>FrpProxy.Name = ''bob-manager-10.0.0.9-443'', Type = ''tcp'', LocalIP = ''127.0.0.1'',
             LocalPort = ''9000'', RemotePort = ''7000''\<rparr>,
            \<lparr>FrpProxy.Name = ''alice-manager-10.0.0.5-80'', Type = ''tcp'', LocalIP = ''127.0.0.1'',
             LocalPort = ''8000'', RemotePort = ''6000''\<rparr>]"
    by (simp add: requestProxy_def proxyName_def bobRequest_def aliceRequest_def)
  with f wf d bob_alice_append show ?thesis by blast
qed

end
